theory Spec2Isabelle
  imports Complex_Main "HOL-Library.Sublist" "HOL-Library.Char_ord" "HOL-Library.List_Lexorder"
    "HOL-Library.AList"
begin

section \<open>The Python runtime, as far as the script uses it\<close>

text \<open>
  The script \<^verbatim>\<open>scripts/analyze_benchmark_results.py\<close> reads two text files, extracts
  benchmark timings with a regular expression, and prints a markdown report.

  Text read from the input files is a \<^typ>\<open>string\<close>: a \<^typ>\<open>char\<close> stands for one code
  point in the range U+0000..U+00FF, which holds ASCII and the micro sign U+00B5.
  Text that the script builds for printing also holds code points beyond U+00FF (the
  markers of the report), so it is a list of code points, \<open>ustr\<close>.

  Python floats are modelled by exact rationals: \<^verbatim>\<open>float\<close> of a decimal literal is its
  exact value, and products and quotients are exact. Rounding, overflow to infinity and
  underflow of IEEE doubles are outside the model.
\<close>

type_synonym ustr = "nat list"

definition u :: "string \<Rightarrow> ustr" where
  "u s = map of_char s"

datatype py_error = ValueError | FileNotFoundError

subsection \<open>Character classes of \<^verbatim>\<open>re\<close> and \<^verbatim>\<open>str.split\<close>\<close>

definition is_space :: "char \<Rightarrow> bool" where
  \<comment> \<open>\<^verbatim>\<open>\s\<close> and \<^verbatim>\<open>str.isspace\<close>: 0x09-0x0D, 0x1C-0x1F, 0x20, 0x85, 0xA0\<close>
  "is_space c =
     (let n = (of_char c :: nat)
      in (9 \<le> n \<and> n \<le> 13) \<or> (28 \<le> n \<and> n \<le> 32) \<or> n = 133 \<or> n = 160)"

definition is_digit :: "char \<Rightarrow> bool" where
  \<comment> \<open>\<^verbatim>\<open>\d\<close>: the decimal digits; below U+0100 these are 0-9\<close>
  "is_digit c = (let n = (of_char c :: nat) in 48 \<le> n \<and> n \<le> 57)"

definition is_word :: "char \<Rightarrow> bool" where
  \<comment> \<open>\<^verbatim>\<open>[\w_]\<close>: alphanumeric code points and the underscore\<close>
  "is_word c =
     (let n = (of_char c :: nat)
      in (48 \<le> n \<and> n \<le> 57) \<or> (65 \<le> n \<and> n \<le> 90) \<or> n = 95 \<or> (97 \<le> n \<and> n \<le> 122)
         \<or> n = 170 \<or> n = 178 \<or> n = 179 \<or> n = 181 \<or> n = 185 \<or> n = 186
         \<or> (188 \<le> n \<and> n \<le> 190) \<or> (192 \<le> n \<and> n \<le> 214) \<or> (216 \<le> n \<and> n \<le> 246)
         \<or> 248 \<le> n)"

definition is_digit_or_dot :: "char \<Rightarrow> bool" where
  \<comment> \<open>\<^verbatim>\<open>[\d.]\<close>\<close>
  "is_digit_or_dot c = (is_digit c \<or> c = CHR ''.'')"

definition not_space :: "char \<Rightarrow> bool" where
  \<comment> \<open>\<^verbatim>\<open>\S\<close>\<close>
  "not_space c = (\<not> is_space c)"

definition not_rbracket :: "char \<Rightarrow> bool" where
  \<comment> \<open>\<^verbatim>\<open>[^\]]\<close>\<close>
  "not_rbracket c = (c \<noteq> CHR '']'')"

subsection \<open>Backtracking regular expressions\<close>

text \<open>
  The constructs the two patterns of the script use: a literal, a greedy repetition of a
  character class (\<^verbatim>\<open>+\<close> and \<^verbatim>\<open>*\<close>), concatenation, ordered alternation and a
  numbered capturing group.
\<close>

datatype regex =
    Lit string
  | Plus "char \<Rightarrow> bool"
  | Star "char \<Rightarrow> bool"
  | Seq regex regex
  | Alt regex regex
  | Group nat regex

type_synonym groups = "nat \<rightharpoonup> string"

text \<open>
  \<open>greedy p s\<close> lists what is left of \<open>s\<close> after a repetition of the class \<open>p\<close> has
  consumed a prefix, in the order in which the backtracking matcher tries them: the
  longest prefix first, the empty prefix last.
\<close>

fun greedy :: "(char \<Rightarrow> bool) \<Rightarrow> string \<Rightarrow> string list" where
  "greedy p [] = [[]]"
| "greedy p (c # cs) = (if p c then greedy p cs @ [c # cs] else [c # cs])"

text \<open>
  \<open>matches r s g\<close> lists every way in which \<open>r\<close> matches a prefix of \<open>s\<close>, as the
  groups captured and the text left, in the matcher's order of preference. The matcher
  of \<^verbatim>\<open>re\<close> returns the first of them.
\<close>

fun matches :: "regex \<Rightarrow> string \<Rightarrow> groups \<Rightarrow> (groups \<times> string) list" where
  "matches (Lit l) s g = (if prefix l s then [(g, drop (length l) s)] else [])"
| "matches (Plus p) s g = map (Pair g) (butlast (greedy p s))"
| "matches (Star p) s g = map (Pair g) (greedy p s)"
| "matches (Seq a b) s g = concat (map (\<lambda>(g', r). matches b r g') (matches a s g))"
| "matches (Alt a b) s g = matches a s g @ matches b s g"
| "matches (Group i a) s g =
     map (\<lambda>(g', r). (g'(i \<mapsto> take (length s - length r) s), r)) (matches a s g)"

definition re_match :: "regex \<Rightarrow> string \<Rightarrow> (groups \<times> string) option" where
  \<comment> \<open>\<^verbatim>\<open>re.match\<close>: a match at the start of the text, or \<^verbatim>\<open>None\<close>\<close>
  "re_match r s = (case matches r s Map.empty of [] \<Rightarrow> None | m # _ \<Rightarrow> Some m)"

text \<open>
  \<^verbatim>\<open>re.finditer\<close>: the matches from left to right, not overlapping. The counter is the
  number of characters still covered by the match found last. Neither pattern of the
  script matches the empty text.
\<close>

fun finditer_from :: "regex \<Rightarrow> nat \<Rightarrow> string \<Rightarrow> groups list" where
  "finditer_from r k [] = []"
| "finditer_from r k (c # cs) =
     (if 0 < k then finditer_from r (k - 1) cs
      else case re_match r (c # cs) of
             None \<Rightarrow> finditer_from r 0 cs
           | Some (g, rest) \<Rightarrow> g # finditer_from r (length (c # cs) - length rest - 1) cs)"

definition finditer :: "regex \<Rightarrow> string \<Rightarrow> groups list" where
  "finditer r s = finditer_from r 0 s"

definition group :: "groups \<Rightarrow> nat \<Rightarrow> string" where
  \<comment> \<open>\<^verbatim>\<open>match.group(i)\<close> of a group that took part in the match\<close>
  "group g i = (case g i of Some t \<Rightarrow> t | None \<Rightarrow> [])"

subsection \<open>\<^verbatim>\<open>str.split\<close>, \<^verbatim>\<open>in\<close>, \<^verbatim>\<open>float\<close> and formatting\<close>

fun split_from :: "string \<Rightarrow> string \<Rightarrow> string list" where
  "split_from cur [] = (if cur = [] then [] else [cur])"
| "split_from cur (c # cs) =
     (if is_space c then (if cur = [] then split_from [] cs else cur # split_from [] cs)
      else split_from (cur @ [c]) cs)"

definition py_split :: "string \<Rightarrow> string list" where
  \<comment> \<open>\<^verbatim>\<open>s.split()\<close>: the maximal runs of characters that are not whitespace\<close>
  "py_split s = split_from [] s"

fun py_in :: "'a list \<Rightarrow> 'a list \<Rightarrow> bool" where
  \<comment> \<open>\<^verbatim>\<open>t in s\<close> on strings\<close>
  "py_in t [] = (t = [])"
| "py_in t (c # cs) = (prefix t (c # cs) \<or> py_in t cs)"

definition digit_val :: "char \<Rightarrow> nat" where
  "digit_val c = of_char c - 48"

definition nat_of_digits :: "string \<Rightarrow> nat" where
  "nat_of_digits ds = foldl (\<lambda>a c. 10 * a + digit_val c) 0 ds"

definition py_float :: "string \<Rightarrow> py_error + rat" where
  \<comment> \<open>\<^verbatim>\<open>float(s)\<close> for a text of digits and dots, which is what \<^verbatim>\<open>[\d.]+\<close> captures:
      digits with at most one dot and at least one digit, or \<^verbatim>\<open>ValueError\<close>\<close>
  "py_float s =
     (let ip = takeWhile is_digit s; r = dropWhile is_digit s
      in case r of
           [] \<Rightarrow> (if ip = [] then Inl ValueError else Inr (of_nat (nat_of_digits ip)))
         | c # fp \<Rightarrow>
             (if c = CHR ''.'' \<and> list_all is_digit fp \<and> (ip \<noteq> [] \<or> fp \<noteq> [])
              then Inr (of_nat (nat_of_digits ip) + of_nat (nat_of_digits fp) / 10 ^ length fp)
              else Inl ValueError))"

definition digit_char :: "nat \<Rightarrow> char" where
  "digit_char d = char_of (48 + d)"

function show_nat :: "nat \<Rightarrow> string" where
  \<comment> \<open>\<^verbatim>\<open>str(n)\<close> of a natural number\<close>
  "show_nat n = (if n < 10 then [digit_char n] else show_nat (n div 10) @ [digit_char (n mod 10)])"
  by pat_completeness auto
termination
  by (relation "measure id") auto

definition round_half_even :: "rat \<Rightarrow> int" where
  "round_half_even q =
     (let f = \<lfloor>q\<rfloor>; d = q - of_int f
      in if d < 1 / 2 then f else if 1 / 2 < d then f + 1 else if even f then f else f + 1)"

definition format_2f :: "rat \<Rightarrow> string" where
  \<comment> \<open>\<^verbatim>\<open>f"{x:.2f}"\<close>: two decimals, the value rounded half to even\<close>
  "format_2f x =
     (let n = nat (round_half_even (\<bar>x\<bar> * 100))
      in (if x < 0 then ''-'' else '''') @ show_nat (n div 100) @ ''.''
         @ [digit_char (n mod 100 div 10), digit_char (n mod 10)])"

section \<open>The script\<close>

subsection \<open>\<^verbatim>\<open>parse_time_to_ns\<close>\<close>

definition time_pattern :: regex where
  \<comment> \<open>\<^verbatim>\<open>([\d.]+)\s*(\S+)\<close>\<close>
  "time_pattern = Seq (Group 1 (Plus is_digit_or_dot)) (Seq (Star is_space) (Group 2 (Plus not_space)))"

definition conversions :: "(string \<times> rat) list" where
  \<comment> \<open>the second key as the source file spells it: U+00C2, U+00B5, \<^verbatim>\<open>s\<close>\<close>
  "conversions =
     [(''ns'', 1),
      ([CHR 0xC2, CHR 0xB5, CHR ''s''], 1000),
      (''us'', 1000),
      (''ms'', 1000000),
      (''s'', 1000000000)]"

definition conversions_get :: "string \<Rightarrow> rat" where
  \<comment> \<open>\<^verbatim>\<open>conversions.get(unit, 1.0)\<close>\<close>
  "conversions_get unit = (case map_of conversions unit of Some f \<Rightarrow> f | None \<Rightarrow> 1)"

definition parse_time_to_ns :: "string \<Rightarrow> py_error + rat" where
  "parse_time_to_ns time_str =
     (case re_match time_pattern time_str of
        None \<Rightarrow> Inr 0
      | Some (g, _) \<Rightarrow>
          (case py_float (group g 1) of
             Inl e \<Rightarrow> Inl e
           | Inr v \<Rightarrow> Inr (v * conversions_get (group g 2))))"

subsection \<open>\<^verbatim>\<open>parse_criterion_output\<close>\<close>

record bench_rec =
  time :: string
  full_time :: string

text \<open>A Python dictionary with text keys: an association list in insertion order.\<close>

type_synonym 'v dict = "(string \<times> 'v) list"

definition bench_pattern :: regex where
  \<comment> \<open>\<^verbatim>\<open>(\S+/\S+/\d+|[\w_]+)\s+time:\s+\[([^\]]+)\]\<close>\<close>
  "bench_pattern =
     Seq (Group 1
            (Alt (Seq (Plus not_space) (Seq (Lit ''/'') (Seq (Plus not_space)
                    (Seq (Lit ''/'') (Plus is_digit)))))
                 (Plus is_word)))
      (Seq (Plus is_space) (Seq (Lit ''time:'') (Seq (Plus is_space) (Seq (Lit ''['')
        (Seq (Group 2 (Plus not_rbracket)) (Lit '']''))))))"

definition parse_step :: "bench_rec dict \<Rightarrow> groups \<Rightarrow> bench_rec dict" where
  \<comment> \<open>the body of the loop over the matches\<close>
  "parse_step benchmarks m =
     (let bench_name = group m 1;
          time_info = group m 2;
          times = py_split time_info
      in if 2 \<le> length times
         then AList.update bench_name \<lparr>time = times ! 1, full_time = time_info\<rparr> benchmarks
         else benchmarks)"

definition parse_criterion_content :: "string \<Rightarrow> bench_rec dict" where
  "parse_criterion_content content = foldl parse_step [] (finditer bench_pattern content)"

text \<open>The file system maps a path to the text of a readable file.\<close>

definition parse_criterion_output :: "(string \<rightharpoonup> string) \<Rightarrow> string \<Rightarrow> py_error + bench_rec dict" where
  "parse_criterion_output fs filename =
     (case fs filename of
        None \<Rightarrow> Inl FileNotFoundError
      | Some content \<Rightarrow> Inr (parse_criterion_content content))"

subsection \<open>\<^verbatim>\<open>calculate_speedup\<close>\<close>

definition times_sign :: ustr where
  \<comment> \<open>the two code points between the factor and the word, as the source file has them\<close>
  "times_sign = [0xC3, 0x2014]"

definition calculate_speedup :: "rat \<Rightarrow> rat \<Rightarrow> rat \<times> ustr" where
  "calculate_speedup main_ns current_ns =
     (if main_ns = 0 \<or> current_ns = 0 then (0, u ''N/A'')
      else let ratio = main_ns / current_ns
           in if 1 < ratio then (ratio, u (format_2f ratio) @ times_sign @ u '' faster'')
              else if ratio < 1
              then (let regression = 1 / ratio
                    in (ratio, u (format_2f regression) @ times_sign @ u '' slower (regression)''))
              else (1, u ''Same''))"

subsection \<open>\<^verbatim>\<open>main\<close>\<close>

datatype outcome = Returned | SysExit nat | Uncaught py_error


text \<open>
  What a run leaves behind: the arguments of the calls of \<^verbatim>\<open>print\<close> to either stream, in
  order (each call ends its text with a newline), and how the run ended.
\<close>

record run =
  stdout :: "ustr list"
  stderr :: "ustr list"
  outcome :: outcome

definition improvement_marker :: ustr where
  "improvement_marker = [0xE2, 0x153, 0x2026]"

definition regression_marker :: ustr where
  "regression_marker = [0xE2, 0x152]"

definition neutral_marker :: ustr where
  "neutral_marker = [0xE2, 0x17E, 0x2013]"

definition usage_line :: ustr where
  "usage_line = u ''Usage: python3 analyze_benchmark_results.py main_results.txt current_results.txt''"

definition categories_init :: "string list dict" where
  "categories_init =
     [(''prefix_fast_path'', []), (''bulk_insertion'', []), (''cow_clone'', []),
      (''pattern_matching'', []), (''rule_matching'', []), (''type_lookup'', []),
      (''evaluation'', []), (''scalability'', []), (''other'', [])]"

definition all_benchmarks :: "bench_rec dict \<Rightarrow> bench_rec dict \<Rightarrow> string list" where
  \<comment> \<open>\<^verbatim>\<open>sorted(set(main_results.keys()) | set(current_results.keys()))\<close>\<close>
  "all_benchmarks main_results current_results =
     sort (remdups (map fst main_results @ map fst current_results))"

fun find_category :: "string list \<Rightarrow> string \<Rightarrow> string option" where
  \<comment> \<open>the inner loop: the first key that occurs in the name, where the loop breaks\<close>
  "find_category [] bench = None"
| "find_category (category # rest) bench =
     (if py_in category bench then Some category else find_category rest bench)"

definition categorize_step :: "string list dict \<Rightarrow> string \<Rightarrow> string list dict" where
  "categorize_step categories bench =
     (case find_category (map fst categories) bench of
        Some category \<Rightarrow> AList.map_entry category (\<lambda>l. l @ [bench]) categories
      | None \<Rightarrow> AList.map_entry ''other'' (\<lambda>l. l @ [bench]) categories)"

definition categorize :: "string list \<Rightarrow> string list dict" where
  "categorize benches = foldl categorize_step categories_init benches"

fun title_from :: "bool \<Rightarrow> string \<Rightarrow> string" where
  \<comment> \<open>\<^verbatim>\<open>str.title\<close> on ASCII text; the flag says that the previous character is a letter\<close>
  "title_from prev [] = []"
| "title_from prev (c # cs) =
     (let n = (of_char c :: nat)
      in if 97 \<le> n \<and> n \<le> 122 then (if prev then c else char_of (n - 32)) # title_from True cs
         else if 65 \<le> n \<and> n \<le> 90 then (if prev then char_of (n + 32) else c) # title_from True cs
         else c # title_from False cs)"

definition heading :: "string \<Rightarrow> ustr" where
  \<comment> \<open>\<^verbatim>\<open>f"## {category.replace('_', ' ').title()}\n"\<close>\<close>
  "heading category =
     u ''## '' @ u (title_from False (map (\<lambda>c. if c = CHR ''_'' then CHR '' '' else c) category))
     @ [10]"

definition get_time :: "bench_rec dict \<Rightarrow> string \<Rightarrow> string" where
  \<comment> \<open>\<^verbatim>\<open>results.get(bench, {}).get('time', 'N/A')\<close>\<close>
  "get_time results bench = (case map_of results bench of None \<Rightarrow> ''N/A'' | Some r \<Rightarrow> time r)"

definition compare_times :: "string \<Rightarrow> string \<Rightarrow> py_error + (rat \<times> ustr) option" where
  \<comment> \<open>the comparison both loops of \<^verbatim>\<open>main\<close> make: \<open>None\<close> when a time is \<^verbatim>\<open>'N/A'\<close>\<close>
  "compare_times main_time current_time =
     (if main_time \<noteq> ''N/A'' \<and> current_time \<noteq> ''N/A''
      then (case parse_time_to_ns main_time of
              Inl e \<Rightarrow> Inl e
            | Inr main_ns \<Rightarrow>
                (case parse_time_to_ns current_time of
                   Inl e \<Rightarrow> Inl e
                 | Inr current_ns \<Rightarrow> Inr (Some (calculate_speedup main_ns current_ns))))
      else Inr None)"

definition speedup_cell :: "(rat \<times> ustr) option \<Rightarrow> ustr" where
  \<comment> \<open>the text of the last column; the thresholds are the fractions that \<^verbatim>\<open>1.1\<close> and
      \<^verbatim>\<open>0.9\<close> denote\<close>
  "speedup_cell cmp =
     (case cmp of
        None \<Rightarrow> u ''N/A''
      | Some (ratio, speedup_str) \<Rightarrow>
          (if 11 / 10 < ratio then improvement_marker @ u '' '' @ speedup_str
           else if ratio < 9 / 10 then regression_marker @ u '' '' @ speedup_str
           else neutral_marker @ u '' '' @ speedup_str))"

definition row :: "bench_rec dict \<Rightarrow> bench_rec dict \<Rightarrow> string \<Rightarrow> py_error + ustr" where
  "row main_results current_results bench =
     (let main_time = get_time main_results bench;
          current_time = get_time current_results bench
      in case compare_times main_time current_time of
           Inl e \<Rightarrow> Inl e
         | Inr cmp \<Rightarrow>
             Inr (u ''| `'' @ u bench @ u ''` | '' @ u main_time @ u '' | '' @ u current_time
                  @ u '' | '' @ speedup_cell cmp @ u '' |''))"

fun print_rows ::
  "bench_rec dict \<Rightarrow> bench_rec dict \<Rightarrow> string list \<Rightarrow> ustr list \<Rightarrow> ustr list \<times> py_error option"
where
  "print_rows mr cr [] out = (out, None)"
| "print_rows mr cr (bench # benches) out =
     (case row mr cr bench of
        Inl e \<Rightarrow> (out, Some e)
      | Inr line \<Rightarrow> print_rows mr cr benches (out @ [line]))"

fun print_categories ::
  "bench_rec dict \<Rightarrow> bench_rec dict \<Rightarrow> string list dict \<Rightarrow> ustr list \<Rightarrow> ustr list \<times> py_error option"
where
  "print_categories mr cr [] out = (out, None)"
| "print_categories mr cr ((category, benches) # rest) out =
     (if benches = [] then print_categories mr cr rest out
      else case print_rows mr cr benches
                  (out @ [heading category,
                          u ''| Benchmark | Main Branch | Current Branch | Speedup |'',
                          u ''|-----------|-------------|----------------|---------|''])
           of (out', Some e) \<Rightarrow> (out', Some e)
            | (out', None) \<Rightarrow> print_categories mr cr rest (out' @ [[]]))"

fun count_benchmarks ::
  "bench_rec dict \<Rightarrow> bench_rec dict \<Rightarrow> string list \<Rightarrow> nat \<times> nat \<times> nat
     \<Rightarrow> py_error + nat \<times> nat \<times> nat"
where
  \<comment> \<open>the summary loop over the counters \<^verbatim>\<open>improvements\<close>, \<^verbatim>\<open>regressions\<close>, \<^verbatim>\<open>similar\<close>\<close>
  "count_benchmarks mr cr [] counts = Inr counts"
| "count_benchmarks mr cr (bench # benches) (improvements, regressions, similar) =
     (case compare_times (get_time mr bench) (get_time cr bench) of
        Inl e \<Rightarrow> Inl e
      | Inr None \<Rightarrow> count_benchmarks mr cr benches (improvements, regressions, similar)
      | Inr (Some (ratio, _)) \<Rightarrow>
          (if 11 / 10 < ratio
           then count_benchmarks mr cr benches (improvements + 1, regressions, similar)
           else if ratio < 9 / 10
           then count_benchmarks mr cr benches (improvements, regressions + 1, similar)
           else count_benchmarks mr cr benches (improvements, regressions, similar + 1)))"

definition summary_lines :: "nat \<times> nat \<times> nat \<Rightarrow> ustr list" where
  "summary_lines counts =
     (case counts of (improvements, regressions, similar) \<Rightarrow>
        [u ''- **Total benchmarks**: '' @ u (show_nat (improvements + regressions + similar)),
         u ''- **Improvements** (>10% faster): '' @ u (show_nat improvements) @ u '' ''
           @ improvement_marker,
         u ''- **Regressions** (>10% slower): '' @ u (show_nat regressions) @ u '' ''
           @ regression_marker,
         u ''- **Similar** ('' @ [0xC2, 0xB1] @ u ''10%): '' @ u (show_nat similar) @ u '' ''
           @ neutral_marker]
        @ (if 0 < regressions
           then [[10, 0xE2, 0x161, 0xA0, 0xEF, 0xB8]
                 @ u '' **WARNING**: Performance regressions detected!'']
           else if 0 < improvements
           then [[10, 0xF0, 0x178, 0x17D, 0x2030]
                 @ u '' **Success**: Performance improvements detected!'']
           else []))"

definition report ::
  "string \<Rightarrow> string \<Rightarrow> bench_rec dict \<Rightarrow> bench_rec dict \<Rightarrow> ustr list \<times> py_error option" where
  \<comment> \<open>\<^verbatim>\<open>main\<close> from the first line it prints to its end\<close>
  "report main_file current_file main_results current_results =
     (let out = [u ''# Branch Comparison Benchmark Report'' @ [10],
                 u ''**Main Branch Results**: `'' @ u main_file @ u ''`'',
                 u ''**Current Branch Results**: `'' @ u current_file @ u ''`'' @ [10]];
          benches = all_benchmarks main_results current_results;
          categories = categorize benches
      in case print_categories main_results current_results categories out of
           (out', Some e) \<Rightarrow> (out', Some e)
         | (out', None) \<Rightarrow>
             (case count_benchmarks main_results current_results benches (0, 0, 0) of
                Inl e \<Rightarrow> (out' @ [u ''## Summary'' @ [10]], Some e)
              | Inr counts \<Rightarrow> (out' @ [u ''## Summary'' @ [10]] @ summary_lines counts, None)))"

definition main :: "string list \<Rightarrow> (string \<rightharpoonup> string) \<Rightarrow> run" where
  \<comment> \<open>\<open>argv\<close> is \<^verbatim>\<open>sys.argv\<close>: the name of the script, then the arguments\<close>
  "main argv fs =
     (if length argv \<noteq> 3
      then \<lparr>stdout = [], stderr = [usage_line], outcome = SysExit 1\<rparr>
      else let main_file = argv ! 1; current_file = argv ! 2
           in case parse_criterion_output fs main_file of
                Inl e \<Rightarrow> \<lparr>stdout = [], stderr = [], outcome = Uncaught e\<rparr>
              | Inr main_results \<Rightarrow>
                  (case parse_criterion_output fs current_file of
                     Inl e \<Rightarrow> \<lparr>stdout = [], stderr = [], outcome = Uncaught e\<rparr>
                   | Inr current_results \<Rightarrow>
                       (case report main_file current_file main_results current_results of
                          (out, Some e) \<Rightarrow> \<lparr>stdout = out, stderr = [], outcome = Uncaught e\<rparr>
                        | (out, None) \<Rightarrow> \<lparr>stdout = out, stderr = [], outcome = Returned\<rparr>)))"

subsection \<open>Names for the statements\<close>

definition category_keys :: "string list" where
  \<comment> \<open>\<^verbatim>\<open>categories.keys()\<close>, which the loops over the categories never change\<close>
  "category_keys = map fst categories_init"

abbreviation (input) tag_of :: "string \<Rightarrow> string" where
  \<comment> \<open>the key of the bucket that the body of the categorizing loop appends a name to\<close>
  "tag_of b \<equiv> (case find_category category_keys b of Some t \<Rightarrow> t | None \<Rightarrow> ''other'')"

definition header :: "string \<Rightarrow> string \<Rightarrow> ustr list" where
  \<comment> \<open>the three lines that \<^verbatim>\<open>main\<close> prints before the categories\<close>
  "header main_file current_file =
     [u ''# Branch Comparison Benchmark Report'' @ [10],
      u ''**Main Branch Results**: `'' @ u main_file @ u ''`'',
      u ''**Current Branch Results**: `'' @ u current_file @ u ''`'' @ [10]]"

definition section_lines :: "bench_rec dict \<Rightarrow> bench_rec dict \<Rightarrow> string \<times> string list \<Rightarrow> ustr list" where
  \<comment> \<open>what the loop over the categories prints for one category whose rows all print\<close>
  "section_lines mr cr cb =
     [heading (fst cb),
      u ''| Benchmark | Main Branch | Current Branch | Speedup |'',
      u ''|-----------|-------------|----------------|---------|'']
     @ map (\<lambda>b. projr (row mr cr b)) (snd cb) @ [[]]"

definition name_pattern :: regex where
  \<comment> \<open>the part of the benchmark pattern inside the first group\<close>
  "name_pattern =
     Alt (Seq (Plus not_space) (Seq (Lit ''/'') (Seq (Plus not_space)
            (Seq (Lit ''/'') (Plus is_digit)))))
         (Plus is_word)"

definition tail_pattern :: regex where
  \<comment> \<open>the part of the benchmark pattern after the first group\<close>
  "tail_pattern =
     Seq (Plus is_space) (Seq (Lit ''time:'') (Seq (Plus is_space) (Seq (Lit ''['')
        (Seq (Group 2 (Plus not_rbracket)) (Lit '']'')))))"

definition time_token :: "string \<Rightarrow> bool" where
  \<comment> \<open>a token of the bracketed text, such as \<^verbatim>\<open>12.5ns\<close>: not empty, no whitespace, no closing bracket\<close>
  "time_token t = (t \<noteq> [] \<and> list_all (\<lambda>c. not_space c \<and> not_rbracket c) t)"

section \<open>Properties of \<^verbatim>\<open>parse_time_to_ns\<close>\<close>




lemma digit_not_space: "is_digit c \<Longrightarrow> \<not> is_space c"
  by (auto simp: is_digit_def is_space_def Let_def)




text \<open>
  C3, on the source as it is. The normalizer multiplies the number by the factor of the
  unit: \<^verbatim>\<open>"500 ns"\<close> gives 500, \<^verbatim>\<open>"1.5 ms"\<close> gives 1500000, \<^verbatim>\<open>"2 s"\<close> gives 2000000000,
  \<^verbatim>\<open>"10 us"\<close> gives 10000 and the unknown unit of \<^verbatim>\<open>"42 foo"\<close> counts as 1. The key of
  the microsecond entry in the table of the source file is the three code points
  U+00C2, U+00B5, \<^verbatim>\<open>s\<close>, so the unit written with the micro sign alone (U+00B5, \<^verbatim>\<open>s\<close>) is
  not found: 10 microseconds give 10, not 10000.
\<close>

theorem parse_time_to_ns_units:
  "parse_time_to_ns ''500 ns'' = Inr 500
   \<and> parse_time_to_ns ''1.5 ms'' = Inr 1500000
   \<and> parse_time_to_ns ''2 s'' = Inr 2000000000
   \<and> parse_time_to_ns ''10 us'' = Inr 10000
   \<and> parse_time_to_ns ''42 foo'' = Inr 42
   \<and> parse_time_to_ns [CHR ''1'', CHR ''0'', CHR '' '', CHR 0xB5, CHR ''s''] = Inr 10
   \<and> parse_time_to_ns [CHR ''1'', CHR ''0'', CHR '' '', CHR 0xC2, CHR 0xB5, CHR ''s'']
       = Inr 10000"
  by code_simp

text \<open>
  C9: \<^verbatim>\<open>parse_time_to_ns\<close> does not return on every text. The pattern accepts
  \<^verbatim>\<open>"1.2.3 ns"\<close> and \<^verbatim>\<open>". ns"\<close>, capturing \<^verbatim>\<open>1.2.3\<close> and a lone dot, and the conversion
  of the captured text to a float raises \<^verbatim>\<open>ValueError\<close>, which nothing catches.
\<close>

theorem parse_time_to_ns_raises:
  "map_option (\<lambda>(g, r). group g 1) (re_match time_pattern ''1.2.3 ns'') = Some ''1.2.3''
   \<and> parse_time_to_ns ''1.2.3 ns'' = Inl ValueError
   \<and> map_option (\<lambda>(g, r). group g 1) (re_match time_pattern ''. ns'') = Some ''.''
   \<and> parse_time_to_ns ''. ns'' = Inl ValueError"
  by code_simp




section \<open>Properties of \<^verbatim>\<open>calculate_speedup\<close>\<close>

text \<open>\<^verbatim>\<open>t in s\<close> says that \<open>t\<close> is a contiguous part of \<open>s\<close>.\<close>

lemma py_in_sublist: "py_in t s = sublist t s"
proof (induction s)
  case Nil
  show ?case by simp
next
  case (Cons c cs)
  show ?case
  proof (cases t)
    case Nil
    then show ?thesis by simp
  next
    case (Cons a as)
    with Cons.IH show ?thesis by (simp add: sublist_Cons_right)
  qed
qed


lemma u_append: "u (a @ b) = u a @ u b"
  by (simp add: u_def)





section \<open>Runs of the script on given files\<close>

text \<open>
  C1, on the source as it is. The main file holds the line
  \<^verbatim>\<open>foo/bar/10 time: [10 ns 12 ns 14 ns]\<close> and the current file the line
  \<^verbatim>\<open>foo/bar/10 time: [5 ns 6 ns 7 ns]\<close>. Splitting the bracketed text at whitespace
  separates each number from its unit, so the second token is the unit \<^verbatim>\<open>ns\<close> of the
  first value: both columns of the row show \<^verbatim>\<open>ns\<close>, both times normalize to 0, the row is
  marked as a regression with the label \<^verbatim>\<open>N/A\<close>, and the summary counts no improvement,
  one regression and no similar benchmark, followed by the warning.
\<close>

theorem main_end_to_end:
  "main [''analyze_benchmark_results.py'', ''main.txt'', ''current.txt'']
     [''main.txt'' \<mapsto> ''foo/bar/10 time: [10 ns 12 ns 14 ns]'',
      ''current.txt'' \<mapsto> ''foo/bar/10 time: [5 ns 6 ns 7 ns]'']
   = \<lparr>stdout =
        [u ''# Branch Comparison Benchmark Report'' @ [10],
         u ''**Main Branch Results**: `main.txt`'',
         u ''**Current Branch Results**: `current.txt`'' @ [10],
         u ''## Other'' @ [10],
         u ''| Benchmark | Main Branch | Current Branch | Speedup |'',
         u ''|-----------|-------------|----------------|---------|'',
         u ''| `foo/bar/10` | ns | ns | '' @ regression_marker @ u '' N/A |'',
         [],
         u ''## Summary'' @ [10],
         u ''- **Total benchmarks**: 1'',
         u ''- **Improvements** (>10% faster): 0 '' @ improvement_marker,
         u ''- **Regressions** (>10% slower): 1 '' @ regression_marker,
         u ''- **Similar** ('' @ [0xC2, 0xB1] @ u ''10%): 0 '' @ neutral_marker,
         [10, 0xE2, 0x161, 0xA0, 0xEF, 0xB8]
           @ u '' **WARNING**: Performance regressions detected!''],
      stderr = [], outcome = Returned\<rparr>"
  by code_simp

text \<open>
  C6, on the source as it is. The main file holds \<^verbatim>\<open>b time: [x y z]\<close>, whose time \<^verbatim>\<open>y\<close>
  does not start with a number and normalizes to 0; the current file holds
  \<^verbatim>\<open>b time: [1ns 2ns 3ns]\<close>. The comparator answers with the ratio 0 and the label
  \<^verbatim>\<open>N/A\<close>, and the ratio 0 is below the threshold 0.9: the row carries the regression
  marker and the summary counts one regression. A benchmark that the main file does not
  hold has the plain cell \<^verbatim>\<open>N/A\<close> and is not counted.
\<close>

theorem zero_time_counts_as_regression:
  "parse_criterion_content ''b time: [x y z]'' = [(''b'', \<lparr>time = ''y'', full_time = ''x y z''\<rparr>)]
   \<and> parse_criterion_content ''b time: [1ns 2ns 3ns]''
       = [(''b'', \<lparr>time = ''2ns'', full_time = ''1ns 2ns 3ns''\<rparr>)]
   \<and> parse_time_to_ns ''y'' = Inr 0
   \<and> row [(''b'', \<lparr>time = ''y'', full_time = ''x y z''\<rparr>)]
          [(''b'', \<lparr>time = ''2ns'', full_time = ''1ns 2ns 3ns''\<rparr>)] ''b''
       = Inr (u ''| `b` | y | 2ns | '' @ regression_marker @ u '' N/A |'')
   \<and> count_benchmarks [(''b'', \<lparr>time = ''y'', full_time = ''x y z''\<rparr>)]
          [(''b'', \<lparr>time = ''2ns'', full_time = ''1ns 2ns 3ns''\<rparr>)] [''b''] (0, 0, 0)
       = Inr (0, 1, 0)
   \<and> row [] [(''b'', \<lparr>time = ''2ns'', full_time = ''1ns 2ns 3ns''\<rparr>)] ''b''
       = Inr (u ''| `b` | N/A | 2ns | N/A |'')
   \<and> count_benchmarks [] [(''b'', \<lparr>time = ''2ns'', full_time = ''1ns 2ns 3ns''\<rparr>)] [''b'']
          (0, 0, 0)
       = Inr (0, 0, 0)"
  by code_simp

section \<open>The categories of the report\<close>

lemma map_entry_keyed:
  "distinct ks \<Longrightarrow>
   AList.map_entry k g (map (\<lambda>c. (c, f c)) ks) = map (\<lambda>c. (c, if c = k then g (f c) else f c)) ks"
  by (induction ks) auto

lemma categorize_step_keyed:
  assumes "distinct ks"
  shows "categorize_step (map (\<lambda>c. (c, f c)) ks) bench
    = map (\<lambda>c. (c, if c = (case find_category ks bench of Some t \<Rightarrow> t | None \<Rightarrow> ''other'')
                      then f c @ [bench] else f c)) ks"
proof -
  have k: "map fst (map (\<lambda>c. (c, f c)) ks) = ks" by (simp add: comp_def)
  show ?thesis
    unfolding categorize_step_def k
    by (cases "find_category ks bench") (simp_all add: map_entry_keyed[OF assms])
qed

lemma foldl_categorize_step:
  assumes "distinct ks"
  shows "foldl categorize_step (map (\<lambda>c. (c, f c)) ks) benches
    = map (\<lambda>c. (c, f c @ filter (\<lambda>b. (case find_category ks b of Some t \<Rightarrow> t | None \<Rightarrow> ''other'') = c) benches)) ks"
proof (induction benches arbitrary: f)
  case Nil
  show ?case by simp
next
  case (Cons b bs)
  show ?case
    unfolding foldl_Cons categorize_step_keyed[OF assms] Cons.IH
    by (rule map_cong) auto
qed

lemma distinct_category_keys: "distinct category_keys" by (simp add: category_keys_def categories_init_def)

lemma categories_init_keys: "categories_init = map (\<lambda>c. (c, [])) category_keys"
  by (simp add: categories_init_def category_keys_def)

lemma categorize_eq:
  "categorize benches
   = map (\<lambda>c. (c, filter (\<lambda>b. tag_of b = c) benches)) category_keys"
  unfolding categorize_def categories_init_keys
  using foldl_categorize_step[OF distinct_category_keys, of "\<lambda>_. []"] by simp

lemma find_category_Some:
  "find_category ks b = Some c \<Longrightarrow>
   \<exists>i < length ks. ks ! i = c \<and> py_in c b \<and> (\<forall>j < i. \<not> py_in (ks ! j) b)"
proof (induction ks)
  case Nil
  then show ?case by simp
next
  case (Cons k ks)
  show ?case
  proof (cases "py_in k b")
    case True
    with Cons.prems have "k = c" by simp
    with True show ?thesis by (intro exI[of _ 0]) simp
  next
    case False
    with Cons obtain i where i: "i < length ks" "ks ! i = c" "py_in c b" "\<forall>j < i. \<not> py_in (ks ! j) b"
      by auto
    have "\<forall>j < Suc i. \<not> py_in ((k # ks) ! j) b"
      using False i(4) by (auto simp: nth_Cons split: nat.splits)
    with i show ?thesis by (intro exI[of _ "Suc i"]) simp
  qed
qed

lemma find_category_None: "find_category ks b = None \<longleftrightarrow> (\<forall>c \<in> set ks. \<not> py_in c b)"
  by (induction ks) auto

lemma find_category_in: "find_category ks b = Some c \<Longrightarrow> c \<in> set ks"
  by (induction ks) (auto split: if_splits)

lemma category_in_tags:
  "tag_of b \<in> set category_keys"
proof (cases "find_category category_keys b")
  case None
  then show ?thesis by (simp add: category_keys_def categories_init_def)
next
  case (Some t)
  then show ?thesis using find_category_in[OF Some] by simp
qed

lemma set_all_benchmarks: "set (all_benchmarks mr cr) = fst ` set mr \<union> fst ` set cr"
  by (simp add: all_benchmarks_def)

lemma sorted_all_benchmarks: "sorted (all_benchmarks mr cr) \<and> distinct (all_benchmarks mr cr)"
  by (simp add: all_benchmarks_def)

lemma in_bucket:
  "(c, bs) \<in> set (categorize benches) \<longleftrightarrow>
   c \<in> set category_keys \<and> bs = filter (\<lambda>b. tag_of b = c) benches"
  unfolding categorize_eq by auto

lemma buckets_union:
  "(\<Union>(c, bs) \<in> set (categorize benches). set bs) = set benches"
proof
  show "(\<Union>(c, bs) \<in> set (categorize benches). set bs) \<subseteq> set benches"
    by (auto simp: in_bucket)
  show "set benches \<subseteq> (\<Union>(c, bs) \<in> set (categorize benches). set bs)"
  proof
    fix b assume b: "b \<in> set benches"
    have "(tag_of b, filter (\<lambda>x. tag_of x = tag_of b) benches) \<in> set (categorize benches)"
      using category_in_tags[of b] by (simp add: in_bucket)
    moreover have "b \<in> set (filter (\<lambda>x. tag_of x = tag_of b) benches)" using b by simp
    ultimately show "b \<in> (\<Union>(c, bs) \<in> set (categorize benches). set bs)" by blast
  qed
qed

lemma bucket_unique:
  assumes "b \<in> set benches"
  shows "\<exists>!c. \<exists>bs. (c, bs) \<in> set (categorize benches) \<and> b \<in> set bs"
proof
  show "\<exists>bs. (tag_of b, bs) \<in> set (categorize benches) \<and> b \<in> set bs"
    using category_in_tags[of b] assms by (simp add: in_bucket)
next
  fix c assume "\<exists>bs. (c, bs) \<in> set (categorize benches) \<and> b \<in> set bs"
  then show "c = tag_of b" by (auto simp: in_bucket)
qed

lemma bucket_first_match:
  assumes "(c, bs) \<in> set (categorize benches)" "b \<in> set bs"
  shows "(\<exists>i < length category_keys. category_keys ! i = c \<and> py_in c b \<and> (\<forall>j < i. \<not> py_in (category_keys ! j) b))
         \<or> (c = ''other'' \<and> (\<forall>t \<in> set category_keys. \<not> py_in t b))"
proof (cases "find_category category_keys b")
  case None
  with assms have "c = ''other''" by (auto simp: in_bucket)
  with None show ?thesis by (simp add: find_category_None)
next
  case (Some t)
  with assms have "c = t" by (auto simp: in_bucket)
  with find_category_Some[OF Some] show ?thesis by blast
qed

lemma bucket_other:
  assumes "b \<in> set benches" "\<forall>t \<in> set category_keys. \<not> py_in t b"
  shows "\<exists>bs. (''other'', bs) \<in> set (categorize benches) \<and> b \<in> set bs"
proof -
  from assms(2) have "find_category category_keys b = None" by (simp add: find_category_None)
  then have "tag_of b = ''other''" by simp
  with assms(1) show ?thesis by (simp add: in_bucket category_keys_def categories_init_def)
qed

lemma distinct_buckets:
  assumes "distinct benches"
  shows "distinct (concat (map snd (categorize benches)))"
proof -
  have "distinct (concat (map (\<lambda>c. filter (\<lambda>b. tag_of b = c) benches) ks))" if "distinct ks" for ks
    using that
  proof (induction ks)
    case Nil
    show ?case by simp
  next
    case (Cons k ks)
    then show ?case using assms by auto
  qed
  from this[OF distinct_category_keys] show ?thesis by (simp add: categorize_eq comp_def)
qed

lemma sorted_buckets:
  assumes "sorted benches" "(c, bs) \<in> set (categorize benches)"
  shows "sorted bs"
  using assms by (auto simp: in_bucket sorted_wrt_filter)

lemma map_fst_categorize: "map fst (categorize benches) = category_keys"
  by (simp add: categorize_eq comp_def)

text \<open>
  C5: the categorizing loop partitions the benchmark names of the two mappings. The keys
  of the categories stay in the order of their declaration; the buckets together hold
  exactly the names of either mapping; no name occurs twice in the buckets, so every name
  lies in exactly one bucket; a name in a bucket lies in the bucket of the first key, in
  declaration order, that is a contiguous part of the name, or in \<^verbatim>\<open>other\<close> when no key
  is; and a name containing no key lies in \<^verbatim>\<open>other\<close>.
\<close>

theorem categorize_partition:
  fixes main_results current_results :: "bench_rec dict"
  defines "names \<equiv> fst ` set main_results \<union> fst ` set current_results"
  defines "categories \<equiv> categorize (all_benchmarks main_results current_results)"
  shows "map fst categories = [''prefix_fast_path'', ''bulk_insertion'', ''cow_clone'',
           ''pattern_matching'', ''rule_matching'', ''type_lookup'', ''evaluation'',
           ''scalability'', ''other'']
    \<and> (\<Union>(c, bs) \<in> set categories. set bs) = names
    \<and> distinct (concat (map snd categories))
    \<and> (\<forall>b \<in> names. \<exists>!c. \<exists>bs. (c, bs) \<in> set categories \<and> b \<in> set bs)
    \<and> (\<forall>(c, bs) \<in> set categories. \<forall>b \<in> set bs.
          (\<exists>i < length categories. fst (categories ! i) = c \<and> py_in c b \<and> sublist c b
             \<and> (\<forall>j < i. \<not> py_in (fst (categories ! j)) b))
          \<or> (c = ''other'' \<and> (\<forall>t \<in> fst ` set categories. \<not> py_in t b)))
    \<and> (\<forall>b \<in> names. (\<forall>t \<in> fst ` set categories. \<not> py_in t b) \<longrightarrow>
          (\<exists>bs. (''other'', bs) \<in> set categories \<and> b \<in> set bs))"
proof -
  let ?benches = "all_benchmarks main_results current_results"
  have names: "set ?benches = names" by (simp add: names_def set_all_benchmarks)
  have keys: "map fst categories = category_keys" by (simp add: categories_def map_fst_categorize)
  then have len: "length categories = length category_keys" by (metis length_map)
  have nth: "fst (categories ! j) = category_keys ! j" if "j < length category_keys" for j
    using that keys len by (metis nth_map)
  have fset: "fst ` set categories = set category_keys" using keys by (metis set_map)
  have 1: "map fst categories = [''prefix_fast_path'', ''bulk_insertion'', ''cow_clone'',
           ''pattern_matching'', ''rule_matching'', ''type_lookup'', ''evaluation'',
           ''scalability'', ''other'']"
    using keys by (simp add: category_keys_def categories_init_def)
  have 2: "(\<Union>(c, bs) \<in> set categories. set bs) = names"
    unfolding categories_def buckets_union names ..
  have 3: "distinct (concat (map snd categories))"
    unfolding categories_def using sorted_all_benchmarks distinct_buckets by blast
  have 4: "\<forall>b \<in> names. \<exists>!c. \<exists>bs. (c, bs) \<in> set categories \<and> b \<in> set bs"
    unfolding categories_def using bucket_unique names by blast
  have 5: "\<forall>(c, bs) \<in> set categories. \<forall>b \<in> set bs.
          (\<exists>i < length categories. fst (categories ! i) = c \<and> py_in c b \<and> sublist c b
             \<and> (\<forall>j < i. \<not> py_in (fst (categories ! j)) b))
          \<or> (c = ''other'' \<and> (\<forall>t \<in> fst ` set categories. \<not> py_in t b))"
  proof (intro ballI, clarify)
    fix c bs b assume a: "(c, bs) \<in> set categories" "b \<in> set bs"
      and n: "\<not> (c = ''other'' \<and> (\<forall>t \<in> fst ` set categories. \<not> py_in t b))"
    from bucket_first_match[OF a[unfolded categories_def]] n fset
    obtain i where i: "i < length category_keys" "category_keys ! i = c" "py_in c b" "\<forall>j < i. \<not> py_in (category_keys ! j) b"
      by auto
    have "\<forall>j < i. \<not> py_in (fst (categories ! j)) b" using i(1,4) nth by auto
    with i show "\<exists>i < length categories. fst (categories ! i) = c \<and> py_in c b \<and> sublist c b
             \<and> (\<forall>j < i. \<not> py_in (fst (categories ! j)) b)"
      using len nth py_in_sublist by (intro exI[of _ i]) auto
  qed
  have 6: "\<forall>b \<in> names. (\<forall>t \<in> fst ` set categories. \<not> py_in t b) \<longrightarrow>
          (\<exists>bs. (''other'', bs) \<in> set categories \<and> b \<in> set bs)"
    unfolding fset unfolding categories_def using bucket_other names by blast
  from 1 2 3 4 5 6 show ?thesis by blast
qed

text \<open>
  The witness of C5: a main mapping with \<^verbatim>\<open>evaluation/scalability/1\<close>, which contains two
  keys and goes to the first, and a current mapping with \<^verbatim>\<open>zzz\<close>, which contains none.
\<close>

theorem categorize_partition_witness:
  "''zzz'' \<in> fst ` set [(''evaluation/scalability/1'', \<lparr>time = ''1ns'', full_time = ''1ns 1ns 1ns''\<rparr>)]
        \<union> fst ` set [(''zzz'', \<lparr>time = ''2ns'', full_time = ''2ns 2ns 2ns''\<rparr>)]
   \<and> list_all (\<lambda>t. \<not> py_in t ''zzz'') (map fst (categorize (all_benchmarks
          [(''evaluation/scalability/1'', \<lparr>time = ''1ns'', full_time = ''1ns 1ns 1ns''\<rparr>)]
          [(''zzz'', \<lparr>time = ''2ns'', full_time = ''2ns 2ns 2ns''\<rparr>)])))
   \<and> (\<exists>bs. (''other'', bs) \<in> set (categorize (all_benchmarks
          [(''evaluation/scalability/1'', \<lparr>time = ''1ns'', full_time = ''1ns 1ns 1ns''\<rparr>)]
          [(''zzz'', \<lparr>time = ''2ns'', full_time = ''2ns 2ns 2ns''\<rparr>)])) \<and> ''zzz'' \<in> set bs)
   \<and> categorize (all_benchmarks
          [(''evaluation/scalability/1'', \<lparr>time = ''1ns'', full_time = ''1ns 1ns 1ns''\<rparr>)]
          [(''zzz'', \<lparr>time = ''2ns'', full_time = ''2ns 2ns 2ns''\<rparr>)])
       = [(''prefix_fast_path'', []), (''bulk_insertion'', []), (''cow_clone'', []),
          (''pattern_matching'', []), (''rule_matching'', []), (''type_lookup'', []),
          (''evaluation'', [''evaluation/scalability/1'']), (''scalability'', []),
          (''other'', [''zzz''])]"
proof -
  let ?mr = "[(''evaluation/scalability/1'', \<lparr>time = ''1ns'', full_time = ''1ns 1ns 1ns''\<rparr>)]"
  let ?cr = "[(''zzz'', \<lparr>time = ''2ns'', full_time = ''2ns 2ns 2ns''\<rparr>)]"
  let ?cats = "categorize (all_benchmarks ?mr ?cr)"
  have e: "?cats = [(''prefix_fast_path'', []), (''bulk_insertion'', []), (''cow_clone'', []),
          (''pattern_matching'', []), (''rule_matching'', []), (''type_lookup'', []),
          (''evaluation'', [''evaluation/scalability/1'']), (''scalability'', []),
          (''other'', [''zzz''])]"
    by code_simp
  have k: "map fst ?cats = [''prefix_fast_path'', ''bulk_insertion'', ''cow_clone'',
           ''pattern_matching'', ''rule_matching'', ''type_lookup'', ''evaluation'',
           ''scalability'', ''other'']"
    using categorize_partition[of ?mr ?cr] by blast
  have n: "''zzz'' \<in> fst ` set ?mr \<union> fst ` set ?cr" by simp
  have l: "list_all (\<lambda>t. \<not> py_in t ''zzz'') (map fst ?cats)"
    unfolding k by code_simp
  then have t: "\<forall>t \<in> fst ` set ?cats. \<not> py_in t ''zzz''"
    unfolding list_all_iff set_map .
  have o: "\<exists>bs. (''other'', bs) \<in> set ?cats \<and> ''zzz'' \<in> set bs"
    using categorize_partition[of ?mr ?cr] n t by blast
  from n l o e show ?thesis by blast
qed

section \<open>The report and the exit status\<close>






lemma print_rows_ok:
  "\<forall>b \<in> set bs. \<exists>l. row mr cr b = Inr l \<Longrightarrow>
   print_rows mr cr bs out = (out @ map (\<lambda>b. projr (row mr cr b)) bs, None)"
  by (induction bs arbitrary: out) auto




lemma print_categories_ok:
  "\<forall>(c, bs) \<in> set cats. \<forall>b \<in> set bs. \<exists>l. row mr cr b = Inr l \<Longrightarrow>
   print_categories mr cr cats out
   = (out @ concat (map (section_lines mr cr) (filter (\<lambda>(c, bs). bs \<noteq> []) cats)), None)"
proof (induction cats arbitrary: out)
  case Nil
  show ?case by simp
next
  case (Cons cb cats)
  obtain c bs where cb: "cb = (c, bs)" by (cases cb)
  from Cons.prems have rows: "\<forall>b \<in> set bs. \<exists>l. row mr cr b = Inr l"
    and rest: "\<forall>(c, bs) \<in> set cats. \<forall>b \<in> set bs. \<exists>l. row mr cr b = Inr l"
    by (auto simp: cb)
  show ?case
    by (simp add: cb print_rows_ok[OF rows] Cons.IH[OF rest] section_lines_def)
qed


lemma count_benchmarks_ok:
  "\<forall>b \<in> set bs. \<exists>r. compare_times (get_time mr b) (get_time cr b) = Inr r \<Longrightarrow>
   \<exists>counts. count_benchmarks mr cr bs (i, r, s) = Inr counts"
proof (induction bs arbitrary: i r s)
  case Nil
  show ?case by simp
next
  case (Cons b bs)
  from Cons.prems obtain x where x: "compare_times (get_time mr b) (get_time cr b) = Inr x"
    by (metis list.set_intros(1))
  from Cons.prems have rest: "\<forall>b \<in> set bs. \<exists>r. compare_times (get_time mr b) (get_time cr b) = Inr r"
    by simp
  show ?case
  proof (cases x)
    case None
    then show ?thesis using Cons.IH[OF rest] by (simp add: x)
  next
    case (Some p)
    obtain ratio label where p: "p = (ratio, label)" by (cases p)
    show ?thesis using Cons.IH[OF rest] by (simp add: x Some p)
  qed
qed

lemma row_Inr: "(\<exists>l. row mr cr b = Inr l) \<longleftrightarrow> (\<exists>r. compare_times (get_time mr b) (get_time cr b) = Inr r)"
  by (auto simp: row_def Let_def split: sum.splits)





lemma main_same_files:
  assumes "length argv = 3 \<longrightarrow> fs (argv ! 1) = fs' (argv ! 1) \<and> fs (argv ! 2) = fs' (argv ! 2)"
  shows "main argv fs = main argv fs'"
proof (cases "length argv = 3")
  case True
  with assms have a: "fs (argv ! Suc 0) = fs' (argv ! Suc 0)" and b: "fs (argv ! 2) = fs' (argv ! 2)"
    by simp_all
  show ?thesis
    by (cases "fs' (argv ! Suc 0)") (simp_all add: main_def parse_criterion_output_def a b True)
next
  case False
  then show ?thesis by (simp add: main_def)
qed

lemma print_rows_append:
  "print_rows mr cr bs out = (out @ fst (print_rows mr cr bs []), snd (print_rows mr cr bs []))"
proof (induction bs arbitrary: out)
  case Nil
  show ?case by simp
next
  case (Cons b bs)
  show ?case
  proof (cases "row mr cr b")
    case (Inl e)
    then show ?thesis by simp
  next
    case (Inr line)
    have 1: "print_rows mr cr (b # bs) out = print_rows mr cr bs (out @ [line])"
      and 2: "print_rows mr cr (b # bs) [] = print_rows mr cr bs [line]"
      by (simp_all add: Inr)
    have 3: "print_rows mr cr bs (out @ [line])
        = ((out @ [line]) @ fst (print_rows mr cr bs []), snd (print_rows mr cr bs []))"
      by (rule Cons.IH)
    have 4: "print_rows mr cr bs [line]
        = ([line] @ fst (print_rows mr cr bs []), snd (print_rows mr cr bs []))"
      by (rule Cons.IH)
    show ?thesis unfolding 1 2 3 4 by simp
  qed
qed

lemma print_categories_append:
  "print_categories mr cr cats out
   = (out @ fst (print_categories mr cr cats []), snd (print_categories mr cr cats []))"
proof (induction cats arbitrary: out)
  case Nil
  show ?case by simp
next
  case (Cons cb cats)
  obtain c bs where cb: "cb = (c, bs)" by (cases cb)
  let ?h = "[heading c,
             u ''| Benchmark | Main Branch | Current Branch | Speedup |'',
             u ''|-----------|-------------|----------------|---------|'']"
  show ?case
  proof (cases "bs = []")
    case True
    have 1: "print_categories mr cr (cb # cats) out = print_categories mr cr cats out"
      and 2: "print_categories mr cr (cb # cats) [] = print_categories mr cr cats []"
      by (simp_all add: cb True)
    show ?thesis unfolding 1 2 by (rule Cons.IH)
  next
    case False
    obtain rows e where rows: "print_rows mr cr bs [] = (rows, e)" by (metis surj_pair)
    have pr1: "print_rows mr cr bs (out @ ?h) = ((out @ ?h) @ rows, e)"
      using print_rows_append[of mr cr bs "out @ ?h"] rows by simp
    have pr2: "print_rows mr cr bs ([] @ ?h) = (([] @ ?h) @ rows, e)"
      using print_rows_append[of mr cr bs "[] @ ?h"] rows by simp
    show ?thesis
    proof (cases e)
      case (Some err)
      have 1: "print_categories mr cr (cb # cats) out = ((out @ ?h) @ rows, Some err)"
        using pr1 by (simp add: cb False Some)
      have 2: "print_categories mr cr (cb # cats) [] = (([] @ ?h) @ rows, Some err)"
        using pr2 by (simp add: cb False Some)
      show ?thesis unfolding 1 2 by simp
    next
      case None
      have 1: "print_categories mr cr (cb # cats) out
          = print_categories mr cr cats (((out @ ?h) @ rows) @ [[]])"
        using pr1 by (simp add: cb False None)
      have 2: "print_categories mr cr (cb # cats) []
          = print_categories mr cr cats ((([] @ ?h) @ rows) @ [[]])"
        using pr2 by (simp add: cb False None)
      have 3: "print_categories mr cr cats (((out @ ?h) @ rows) @ [[]])
          = ((((out @ ?h) @ rows) @ [[]]) @ fst (print_categories mr cr cats []),
             snd (print_categories mr cr cats []))"
        by (rule Cons.IH)
      have 4: "print_categories mr cr cats ((([] @ ?h) @ rows) @ [[]])
          = (((([] @ ?h) @ rows) @ [[]]) @ fst (print_categories mr cr cats []),
             snd (print_categories mr cr cats []))"
        by (rule Cons.IH)
      show ?thesis unfolding 1 2 3 4 by simp
    qed
  qed
qed

lemma report_alt:
  "report mf cf mr cr =
     (case print_categories mr cr (categorize (all_benchmarks mr cr)) (header mf cf) of
        (out', Some e) \<Rightarrow> (out', Some e)
      | (out', None) \<Rightarrow>
          (case count_benchmarks mr cr (all_benchmarks mr cr) (0, 0, 0) of
             Inl e \<Rightarrow> (out' @ [u ''## Summary'' @ [10]], Some e)
           | Inr counts \<Rightarrow> (out' @ [u ''## Summary'' @ [10]] @ summary_lines counts, None)))"
  by (simp add: report_def header_def Let_def)

lemma report_header:
  "report mf cf mr cr = (header mf cf @ drop 3 (fst (report [] [] mr cr)), snd (report [] [] mr cr))"
proof -
  let ?cats = "categorize (all_benchmarks mr cr)"
  obtain body e where b: "print_categories mr cr ?cats [] = (body, e)" by (metis surj_pair)
  have p: "print_categories mr cr ?cats (header f g) = (header f g @ body, e)" for f g
    using print_categories_append[of mr cr ?cats "header f g"] b by simp
  have l: "length (header f g) = 3" for f g by (simp add: header_def)
  show ?thesis
  proof (cases e)
    case (Some x)
    have "report f g mr cr = (header f g @ body, Some x)" for f g
      unfolding report_alt p by (simp add: Some)
    then show ?thesis by (simp add: l)
  next
    case None
    show ?thesis
    proof (cases "count_benchmarks mr cr (all_benchmarks mr cr) (0, 0, 0)")
      case (Inl x)
      have "report f g mr cr = (header f g @ body @ [u ''## Summary'' @ [10]], Some x)" for f g
        unfolding report_alt p by (simp add: None Inl)
      then show ?thesis by (simp add: l)
    next
      case (Inr counts)
      have "report f g mr cr
          = (header f g @ body @ [u ''## Summary'' @ [10]] @ summary_lines counts, None)" for f g
        unfolding report_alt p by (simp add: None Inr)
      then show ?thesis by (simp add: l)
    qed
  qed
qed

lemma main_paths:
  assumes "length argv = 3" "length argv' = 3"
    and "fs (argv ! 1) = fs' (argv' ! 1)" "fs (argv ! 2) = fs' (argv' ! 2)"
  shows "drop 3 (stdout (main argv fs)) = drop 3 (stdout (main argv' fs'))
    \<and> outcome (main argv fs) = outcome (main argv' fs')"
proof -
  have m: "main a f =
      (case f (a ! 1) of None \<Rightarrow> \<lparr>stdout = [], stderr = [], outcome = Uncaught FileNotFoundError\<rparr>
       | Some mc \<Rightarrow>
          (case f (a ! 2) of None \<Rightarrow> \<lparr>stdout = [], stderr = [], outcome = Uncaught FileNotFoundError\<rparr>
           | Some cc \<Rightarrow>
              (case report (a ! 1) (a ! 2) (parse_criterion_content mc) (parse_criterion_content cc) of
                 (out, Some e) \<Rightarrow> \<lparr>stdout = out, stderr = [], outcome = Uncaught e\<rparr>
               | (out, None) \<Rightarrow> \<lparr>stdout = out, stderr = [], outcome = Returned\<rparr>)))"
    if "length a = 3" for a f
    using that by (simp add: main_def parse_criterion_output_def Let_def split: option.splits)
  have l: "length (header f g) = 3" for f g by (simp add: header_def)
  show ?thesis
  proof (cases "fs' (argv' ! 1)")
    case None
    with assms(3) show ?thesis by (simp add: m[OF assms(1)] m[OF assms(2)])
  next
    case mc: (Some mc)
    show ?thesis
    proof (cases "fs' (argv' ! 2)")
      case None
      with assms(3,4) mc show ?thesis by (simp add: m[OF assms(1)] m[OF assms(2)])
    next
      case cc: (Some cc)
      let ?mr = "parse_criterion_content mc" and ?cr = "parse_criterion_content cc"
      obtain body e where r: "report [] [] ?mr ?cr = (body, e)" by (metis surj_pair)
      have r1: "report f g ?mr ?cr = (header f g @ drop 3 body, e)" for f g
        using report_header[of f g ?mr ?cr] r by simp
      have "fs (argv ! Suc 0) = Some mc" "fs (argv ! 2) = Some cc"
        "fs' (argv' ! Suc 0) = Some mc" "fs' (argv' ! 2) = Some cc"
        using assms(3,4) mc cc by simp_all
      then show ?thesis
        by (cases e) (simp_all add: m[OF assms(1)] m[OF assms(2)] r1 l)
    qed
  qed
qed

lemma report_ok:
  assumes "\<forall>b \<in> set (all_benchmarks mr cr). \<exists>l. row mr cr b = Inr l"
  shows "\<exists>counts. count_benchmarks mr cr (all_benchmarks mr cr) (0, 0, 0) = Inr counts
      \<and> report mf cf mr cr
        = (header mf cf
           @ concat (map (section_lines mr cr)
               (filter (\<lambda>(c, bs). bs \<noteq> []) (categorize (all_benchmarks mr cr))))
           @ [u ''## Summary'' @ [10]] @ summary_lines counts, None)"
proof -
  let ?bs = "all_benchmarks mr cr"
  from assms have "\<forall>(c, bs) \<in> set (categorize ?bs). \<forall>b \<in> set bs. \<exists>l. row mr cr b = Inr l"
    by (auto simp: in_bucket)
  note pc = print_categories_ok[OF this]
  from assms have "\<forall>b \<in> set ?bs. \<exists>r. compare_times (get_time mr b) (get_time cr b) = Inr r"
    by (simp add: row_Inr)
  from count_benchmarks_ok[OF this] obtain counts
    where c: "count_benchmarks mr cr ?bs (0, 0, 0) = Inr counts" by blast
  have "report mf cf mr cr
        = (header mf cf @ concat (map (section_lines mr cr)
               (filter (\<lambda>(c, bs). bs \<noteq> []) (categorize ?bs)))
           @ [u ''## Summary'' @ [10]] @ summary_lines counts, None)"
    unfolding report_alt pc by (simp add: c)
  with c show ?thesis by blast
qed

text \<open>
  C8: the output is a function of the command line and of the text of the two files it
  names. Two runs with the same command line on file systems that agree on the two files
  give the same run, whatever else the file systems hold; when the paths differ and the
  texts agree, the output differs in the three header lines only. The categories keep the
  order of their declaration, the names are sorted before they are distributed, and every
  bucket is sorted and free of duplicates; when every row prints, the report is the
  header, the sections of the categories that are not empty in the order of declaration,
  each with its rows in the order of its bucket, and the summary.
\<close>

theorem main_deterministic:
  "((length argv = 3 \<longrightarrow> fs (argv ! 1) = fs' (argv ! 1) \<and> fs (argv ! 2) = fs' (argv ! 2))
      \<longrightarrow> main argv fs = main argv fs')
   \<and> (length argv = 3 \<and> length argv' = 3
       \<and> fs (argv ! 1) = fs' (argv' ! 1) \<and> fs (argv ! 2) = fs' (argv' ! 2)
      \<longrightarrow> drop 3 (stdout (main argv fs)) = drop 3 (stdout (main argv' fs'))
          \<and> outcome (main argv fs) = outcome (main argv' fs'))
   \<and> map fst (categorize (all_benchmarks mr cr))
       = [''prefix_fast_path'', ''bulk_insertion'', ''cow_clone'', ''pattern_matching'',
          ''rule_matching'', ''type_lookup'', ''evaluation'', ''scalability'', ''other'']
   \<and> sorted (all_benchmarks mr cr) \<and> distinct (all_benchmarks mr cr)
   \<and> (\<forall>(c, bs) \<in> set (categorize (all_benchmarks mr cr)). sorted bs \<and> distinct bs)
   \<and> ((\<forall>b \<in> set (all_benchmarks mr cr). \<exists>l. row mr cr b = Inr l) \<longrightarrow>
        (\<exists>counts. report mf cf mr cr
          = (header mf cf
             @ concat (map (section_lines mr cr)
                 (filter (\<lambda>(c, bs). bs \<noteq> []) (categorize (all_benchmarks mr cr))))
             @ [u ''## Summary'' @ [10]] @ summary_lines counts, None)))"
proof -
  have 1: "(length argv = 3 \<longrightarrow> fs (argv ! 1) = fs' (argv ! 1) \<and> fs (argv ! 2) = fs' (argv ! 2))
      \<longrightarrow> main argv fs = main argv fs'"
    using main_same_files by blast
  have 2: "length argv = 3 \<and> length argv' = 3
       \<and> fs (argv ! 1) = fs' (argv' ! 1) \<and> fs (argv ! 2) = fs' (argv' ! 2)
      \<longrightarrow> drop 3 (stdout (main argv fs)) = drop 3 (stdout (main argv' fs'))
          \<and> outcome (main argv fs) = outcome (main argv' fs')"
    using main_paths by blast
  have 3: "map fst (categorize (all_benchmarks mr cr))
       = [''prefix_fast_path'', ''bulk_insertion'', ''cow_clone'', ''pattern_matching'',
          ''rule_matching'', ''type_lookup'', ''evaluation'', ''scalability'', ''other'']"
    by (simp add: map_fst_categorize category_keys_def categories_init_def)
  have 4: "sorted (all_benchmarks mr cr) \<and> distinct (all_benchmarks mr cr)"
    by (rule sorted_all_benchmarks)
  have 5: "\<forall>(c, bs) \<in> set (categorize (all_benchmarks mr cr)). sorted bs \<and> distinct bs"
    using 4 by (auto simp: in_bucket sorted_wrt_filter)
  have 6: "(\<forall>b \<in> set (all_benchmarks mr cr). \<exists>l. row mr cr b = Inr l) \<longrightarrow>
        (\<exists>counts. report mf cf mr cr
          = (header mf cf
             @ concat (map (section_lines mr cr)
                 (filter (\<lambda>(c, bs). bs \<noteq> []) (categorize (all_benchmarks mr cr))))
             @ [u ''## Summary'' @ [10]] @ summary_lines counts, None))"
    using report_ok[of mr cr mf cf] by blast
  from 1 2 3 4 5 6 show ?thesis by blast
qed

text \<open>
  The witness of C8: a file system with a third file that the command line does not name,
  and the two names \<^verbatim>\<open>b\<close> (main file) and \<^verbatim>\<open>a\<close> (current file), which the bucket
  \<^verbatim>\<open>other\<close> holds in sorted order.
\<close>

theorem main_deterministic_witness:
  "[''m'' \<mapsto> ''b time: [1ns 2ns 3ns]'', ''c'' \<mapsto> ''a time: [1ns 2ns 3ns]''] ([''p'', ''m'', ''c''] ! 1)
     = [''m'' \<mapsto> ''b time: [1ns 2ns 3ns]'', ''c'' \<mapsto> ''a time: [1ns 2ns 3ns]'', ''z'' \<mapsto> ''''] ([''p'', ''m'', ''c''] ! 1)
   \<and> [''m'' \<mapsto> ''b time: [1ns 2ns 3ns]'', ''c'' \<mapsto> ''a time: [1ns 2ns 3ns]''] ([''p'', ''m'', ''c''] ! 2)
     = [''m'' \<mapsto> ''b time: [1ns 2ns 3ns]'', ''c'' \<mapsto> ''a time: [1ns 2ns 3ns]'', ''z'' \<mapsto> ''''] ([''p'', ''m'', ''c''] ! 2)
   \<and> main [''p'', ''m'', ''c''] [''m'' \<mapsto> ''b time: [1ns 2ns 3ns]'', ''c'' \<mapsto> ''a time: [1ns 2ns 3ns]'']
     = main [''p'', ''m'', ''c'']
         [''m'' \<mapsto> ''b time: [1ns 2ns 3ns]'', ''c'' \<mapsto> ''a time: [1ns 2ns 3ns]'', ''z'' \<mapsto> '''']
   \<and> (''other'', [''a'', ''b'']) \<in> set (categorize (all_benchmarks
         (parse_criterion_content ''b time: [1ns 2ns 3ns]'')
         (parse_criterion_content ''a time: [1ns 2ns 3ns]'')))
   \<and> sorted [''a'', ''b''] \<and> distinct [''a'', ''b'']"
proof -
  let ?fs = "[''m'' \<mapsto> ''b time: [1ns 2ns 3ns]'', ''c'' \<mapsto> ''a time: [1ns 2ns 3ns]'']"
  let ?fs' = "[''m'' \<mapsto> ''b time: [1ns 2ns 3ns]'', ''c'' \<mapsto> ''a time: [1ns 2ns 3ns]'', ''z'' \<mapsto> '''']"
  let ?argv = "[''p'', ''m'', ''c'']"
  let ?mr = "parse_criterion_content ''b time: [1ns 2ns 3ns]''"
  let ?cr = "parse_criterion_content ''a time: [1ns 2ns 3ns]''"
  have h: "?fs (?argv ! 1) = ?fs' (?argv ! 1)" "?fs (?argv ! 2) = ?fs' (?argv ! 2)"
    by simp_all
  then have m: "main ?argv ?fs = main ?argv ?fs'"
    using main_deterministic[of ?argv ?fs ?fs'] by blast
  have e: "(''other'', [''a'', ''b'']) \<in> set (categorize (all_benchmarks ?mr ?cr))"
    by code_simp
  have "\<forall>(c, bs) \<in> set (categorize (all_benchmarks ?mr ?cr)). sorted bs \<and> distinct bs"
    using main_deterministic[of ?argv ?fs ?fs' ?argv ?mr ?cr] by blast
  with e have s: "sorted [''a'', ''b''] \<and> distinct [''a'', ''b'']" by blast
  from h m e s show ?thesis by blast
qed




section \<open>Properties of \<^verbatim>\<open>parse_criterion_output\<close>\<close>

lemma in_greedy:
  "r \<in> set (greedy p s) \<longleftrightarrow> (\<exists>pre. s = pre @ r \<and> (\<forall>c \<in> set pre. p c))"
proof (induction s)
  case Nil
  show ?case by auto
next
  case (Cons c cs)
  show ?case
  proof
    assume "r \<in> set (greedy p (c # cs))"
    then consider "r = c # cs" | "p c" "r \<in> set (greedy p cs)" by (auto split: if_splits)
    then show "\<exists>pre. c # cs = pre @ r \<and> (\<forall>c \<in> set pre. p c)"
    proof cases
      case 1
      then show ?thesis by (intro exI[of _ "[]"]) simp
    next
      case 2
      with Cons.IH obtain pre where "cs = pre @ r" "\<forall>c \<in> set pre. p c" by blast
      with 2(1) show ?thesis by (intro exI[of _ "c # pre"]) simp
    qed
  next
    assume "\<exists>pre. c # cs = pre @ r \<and> (\<forall>c \<in> set pre. p c)"
    then obtain pre where pre: "c # cs = pre @ r" "\<forall>c \<in> set pre. p c" by blast
    show "r \<in> set (greedy p (c # cs))"
    proof (cases pre)
      case Nil
      have "c # cs \<in> set (greedy p (c # cs))" by simp
      with pre Nil show ?thesis by simp
    next
      case (Cons d pre')
      with pre have "p c" "cs = pre' @ r" "\<forall>c \<in> set pre'. p c" by auto
      with Cons.IH show ?thesis by auto
    qed
  qed
qed

lemma butlast_greedy:
  "butlast (greedy p s) = (case s of [] \<Rightarrow> [] | c # cs \<Rightarrow> if p c then greedy p cs else [])"
  by (cases s) (auto simp: butlast_append)

lemma greedy_nonempty: "greedy p s \<noteq> []"
  by (cases s) auto

lemma in_matches_Lit: "(g', r) \<in> set (matches (Lit l) s g) \<longleftrightarrow> g' = g \<and> s = l @ r"
  by (auto simp: prefix_def)

lemma in_matches_Plus:
  "(g', r) \<in> set (matches (Plus p) s g) \<longleftrightarrow>
   g' = g \<and> (\<exists>c pre. s = c # pre @ r \<and> p c \<and> (\<forall>x \<in> set pre. p x))"
  by (cases s) (auto simp: butlast_greedy in_greedy)

lemma in_matches_Seq:
  "x \<in> set (matches (Seq a b) s g) \<longleftrightarrow>
   (\<exists>g1 r1. (g1, r1) \<in> set (matches a s g) \<and> x \<in> set (matches b r1 g1))"
  by auto

lemma in_matches_Alt:
  "x \<in> set (matches (Alt a b) s g) \<longleftrightarrow> x \<in> set (matches a s g) \<or> x \<in> set (matches b s g)"
  by simp

lemma in_matches_Group:
  "(g', r) \<in> set (matches (Group i a) s g) \<longleftrightarrow>
   (\<exists>g1. (g1, r) \<in> set (matches a s g) \<and> g' = g1(i \<mapsto> take (length s - length r) s))"
  by auto

text \<open>Two ways to cut a text at the first character outside a class agree.\<close>

lemma cut_unique:
  assumes "xs @ a # ra = ys @ b # rb"
    and "\<forall>c \<in> set xs. p c" "\<forall>c \<in> set ys. p c" "\<not> p a" "\<not> p b"
  shows "xs = ys \<and> a # ra = b # rb"
proof -
  have "takeWhile p (xs @ a # ra) = xs" "takeWhile p (ys @ b # rb) = ys"
    using assms(2-5) by (simp_all add: takeWhile_append2)
  with assms(1) have "xs = ys" by simp
  with assms(1) show ?thesis by simp
qed


lemma finditer_from_skip: "length s \<le> k \<Longrightarrow> finditer_from r k s = []"
  by (induction s arbitrary: k) auto

lemma split_from_token:
  "\<forall>c \<in> set t. \<not> is_space c \<Longrightarrow> split_from cur (t @ rest) = split_from (cur @ t) rest"
  by (induction t arbitrary: cur) auto

lemma py_split_three:
  assumes "a \<noteq> []" "b \<noteq> []" "c \<noteq> []"
    and "\<forall>x \<in> set a. \<not> is_space x" "\<forall>x \<in> set b. \<not> is_space x" "\<forall>x \<in> set c. \<not> is_space x"
  shows "py_split (a @ '' '' @ b @ '' '' @ c) = [a, b, c]"
proof -
  have sp: "is_space CHR '' ''" by (simp add: is_space_def)
  have "split_from [] (a @ '' '' @ b @ '' '' @ c) = split_from a ('' '' @ b @ '' '' @ c)"
    using split_from_token[OF assms(4), of "[]"] by simp
  also have "\<dots> = a # split_from [] (b @ '' '' @ c)"
    using assms(1) sp by simp
  also have "split_from [] (b @ '' '' @ c) = split_from b ('' '' @ c)"
    using split_from_token[OF assms(5), of "[]"] by simp
  also have "\<dots> = b # split_from [] c"
    using assms(2) sp by simp
  also have "split_from [] c = [c]"
    using split_from_token[OF assms(6), of "[]" "[]"] assms(3) by simp
  finally show ?thesis by (simp add: py_split_def)
qed

lemma plus_mem:
  "t \<noteq> [] \<Longrightarrow> \<forall>c \<in> set t. p c \<Longrightarrow> (g, r) \<in> set (matches (Plus p) (t @ r) g)"
  unfolding in_matches_Plus by (cases t) auto

lemma lit_mem: "(g, r) \<in> set (matches (Lit l) (l @ r) g)"
  by (simp add: in_matches_Lit)

lemma seq_mem:
  "(g1, r1) \<in> set (matches a s g) \<Longrightarrow> x \<in> set (matches b r1 g1) \<Longrightarrow> x \<in> set (matches (Seq a b) s g)"
  unfolding in_matches_Seq by blast

lemma group_mem:
  "(g1, r) \<in> set (matches a (pre @ r) g) \<Longrightarrow>
   (g1(i \<mapsto> pre), r) \<in> set (matches (Group i a) (pre @ r) g)"
  unfolding in_matches_Group by auto

lemma seqE:
  assumes "x \<in> set (matches (Seq a b) s g)"
  obtains g1 r1 where "(g1, r1) \<in> set (matches a s g)" and "x \<in> set (matches b r1 g1)"
  using assms unfolding in_matches_Seq by blast

lemma litD: "(g', r) \<in> set (matches (Lit l) s g) \<Longrightarrow> s = l @ r \<and> g' = g"
  unfolding in_matches_Lit by simp

lemma plus_prefix:
  assumes "(g', r) \<in> set (matches (Plus p) s g)"
  shows "\<exists>pre. pre \<noteq> [] \<and> s = pre @ r \<and> (\<forall>c \<in> set pre. p c) \<and> g' = g"
proof -
  from assms obtain c pre where "s = c # pre @ r" "p c" "\<forall>x \<in> set pre. p x" "g' = g"
    unfolding in_matches_Plus by blast
  then show ?thesis by (intro exI[of _ "c # pre"]) simp
qed

lemma bench_pattern_parts: "bench_pattern = Seq (Group 1 name_pattern) tail_pattern"
  by (simp add: bench_pattern_def name_pattern_def tail_pattern_def)

lemma word_not_space: "is_word c \<Longrightarrow> \<not> is_space c"
  unfolding is_word_def is_space_def Let_def by linarith

lemma slash_not_space: "\<not> is_space CHR ''/''"
  by (simp add: is_space_def)

lemma name_pattern_prefix:
  assumes "(g', r) \<in> set (matches name_pattern s g)"
  shows "\<exists>pre. pre \<noteq> [] \<and> s = pre @ r \<and> (\<forall>c \<in> set pre. \<not> is_space c) \<and> g' = g"
proof -
  from assms consider
    (slash) "(g', r) \<in> set (matches (Seq (Plus not_space) (Seq (Lit ''/'') (Seq (Plus not_space)
            (Seq (Lit ''/'') (Plus is_digit))))) s g)"
    | (word) "(g', r) \<in> set (matches (Plus is_word) s g)"
    unfolding name_pattern_def in_matches_Alt by blast
  then show ?thesis
  proof cases
    case word
    from plus_prefix[OF word] obtain pre where
      pre: "pre \<noteq> []" "s = pre @ r" "\<forall>c \<in> set pre. is_word c" "g' = g" by blast
    from pre(3) have "\<forall>c \<in> set pre. \<not> is_space c" by (simp add: word_not_space)
    with pre show ?thesis by blast
  next
    case slash
    from slash obtain g1 r1 where
      1: "(g1, r1) \<in> set (matches (Plus not_space) s g)" and
      s1: "(g', r) \<in> set (matches (Seq (Lit ''/'') (Seq (Plus not_space)
            (Seq (Lit ''/'') (Plus is_digit)))) r1 g1)"
      by (rule seqE)
    from s1 obtain g2 r2 where
      2: "(g2, r2) \<in> set (matches (Lit ''/'') r1 g1)" and
      s2: "(g', r) \<in> set (matches (Seq (Plus not_space) (Seq (Lit ''/'') (Plus is_digit))) r2 g2)"
      by (rule seqE)
    from s2 obtain g3 r3 where
      3: "(g3, r3) \<in> set (matches (Plus not_space) r2 g2)" and
      s3: "(g', r) \<in> set (matches (Seq (Lit ''/'') (Plus is_digit)) r3 g3)"
      by (rule seqE)
    from s3 obtain g4 r4 where
      4: "(g4, r4) \<in> set (matches (Lit ''/'') r3 g3)" and
      5: "(g', r) \<in> set (matches (Plus is_digit) r4 g4)"
      by (rule seqE)
    from plus_prefix[OF 1] obtain p1 where p1: "p1 \<noteq> []" "s = p1 @ r1" "\<forall>c \<in> set p1. not_space c" "g1 = g"
      by blast
    from litD[OF 2] have l2: "r1 = ''/'' @ r2" "g2 = g1" by simp_all
    from plus_prefix[OF 3] obtain p2 where p2: "r2 = p2 @ r3" "\<forall>c \<in> set p2. not_space c" "g3 = g2"
      by blast
    from litD[OF 4] have l4: "r3 = ''/'' @ r4" "g4 = g3" by simp_all
    from plus_prefix[OF 5] obtain p3 where p3: "r4 = p3 @ r" "\<forall>c \<in> set p3. is_digit c" "g' = g4"
      by blast
    let ?pre = "p1 @ ''/'' @ p2 @ ''/'' @ p3"
    have "?pre \<noteq> []" using p1(1) by simp
    moreover have "s = ?pre @ r" using p1(2) l2(1) p2(1) l4(1) p3(1) by simp
    moreover have "\<forall>c \<in> set ?pre. \<not> is_space c"
      using p1(3) p2(2) p3(2) slash_not_space digit_not_space by (auto simp: not_space_def)
    moreover have "g' = g" using p1(4) l2(2) p2(3) l4(2) p3(3) by simp
    ultimately show ?thesis by blast
  qed
qed

lemma name_group_prefix:
  assumes "(g', r) \<in> set (matches (Group 1 name_pattern) s g)"
  shows "\<exists>pre. pre \<noteq> [] \<and> s = pre @ r \<and> (\<forall>c \<in> set pre. \<not> is_space c) \<and> g' = g(1 \<mapsto> pre)"
proof -
  from assms have "\<exists>g1. (g1, r) \<in> set (matches name_pattern s g)
      \<and> g' = g1(1 \<mapsto> take (length s - length r) s)"
    unfolding in_matches_Group .
  then obtain g1 where m: "(g1, r) \<in> set (matches name_pattern s g)"
    and g': "g' = g1(1 \<mapsto> take (length s - length r) s)"
    by (elim exE conjE)
  from name_pattern_prefix[OF m] obtain pre where
    pre: "pre \<noteq> []" "s = pre @ r" "\<forall>c \<in> set pre. \<not> is_space c" "g1 = g"
    by (elim exE conjE)
  have t: "take (length s - length r) s = pre" unfolding pre(2) by simp
  have "g' = g(1 \<mapsto> pre)" unfolding g' t pre(4) ..
  with pre(1,2,3) show ?thesis by (intro exI[of _ pre] conjI)
qed

lemma space_is_space: "is_space CHR '' ''"
  by (simp add: is_space_def)

lemma t_not_space: "\<not> is_space CHR ''t''"
  by (simp add: is_space_def)

lemma lbracket_not_space: "\<not> is_space CHR ''[''"
  by (simp add: is_space_def)

lemma tail_starts_space:
  assumes "(g', r) \<in> set (matches tail_pattern s g)"
  shows "\<exists>c rest. s = c # rest \<and> is_space c"
proof -
  from assms obtain g1 r1 where "(g1, r1) \<in> set (matches (Plus is_space) s g)"
    unfolding tail_pattern_def by (rule seqE)
  then have "\<exists>c pre. s = c # pre @ r1 \<and> is_space c \<and> (\<forall>x \<in> set pre. is_space x)"
    unfolding in_matches_Plus by (elim conjE)
  then show ?thesis by blast
qed

lemma tail_sound:
  assumes m: "(g', r) \<in> set (matches tail_pattern ('' time: ['' @ body @ '']'') g)"
    and body: "\<forall>c \<in> set body. c \<noteq> CHR '']''"
  shows "g' = g(2 \<mapsto> body) \<and> r = []"
proof -
  let ?s = "'' time: ['' @ body @ '']''"
  from m obtain g1 r1 where
    1: "(g1, r1) \<in> set (matches (Plus is_space) ?s g)" and
    s1: "(g', r) \<in> set (matches (Seq (Lit ''time:'') (Seq (Plus is_space) (Seq (Lit ''['')
        (Seq (Group 2 (Plus not_rbracket)) (Lit '']''))))) r1 g1)"
    unfolding tail_pattern_def by (rule seqE)
  from s1 obtain g2 r2 where
    2: "(g2, r2) \<in> set (matches (Lit ''time:'') r1 g1)" and
    s2: "(g', r) \<in> set (matches (Seq (Plus is_space) (Seq (Lit ''['')
        (Seq (Group 2 (Plus not_rbracket)) (Lit '']'')))) r2 g2)"
    by (rule seqE)
  from s2 obtain g3 r3 where
    3: "(g3, r3) \<in> set (matches (Plus is_space) r2 g2)" and
    s3: "(g', r) \<in> set (matches (Seq (Lit ''['')
        (Seq (Group 2 (Plus not_rbracket)) (Lit '']''))) r3 g3)"
    by (rule seqE)
  from s3 obtain g4 r4 where
    4: "(g4, r4) \<in> set (matches (Lit ''['') r3 g3)" and
    s4: "(g', r) \<in> set (matches (Seq (Group 2 (Plus not_rbracket)) (Lit '']'')) r4 g4)"
    by (rule seqE)
  from s4 obtain g5 r5 where
    5: "(g5, r5) \<in> set (matches (Group 2 (Plus not_rbracket)) r4 g4)" and
    6: "(g', r) \<in> set (matches (Lit '']'') r5 g5)"
    by (rule seqE)
  from plus_prefix[OF 1] obtain w1 where
    w1: "?s = w1 @ r1" "\<forall>c \<in> set w1. is_space c" "g1 = g" by (elim exE conjE)
  from litD[OF 2] have l2: "r1 = ''time:'' @ r2" "g2 = g1" by simp_all
  from plus_prefix[OF 3] obtain w2 where
    w2: "r2 = w2 @ r3" "\<forall>c \<in> set w2. is_space c" "g3 = g2" by (elim exE conjE)
  from litD[OF 4] have l4: "r3 = ''['' @ r4" "g4 = g3" by simp_all
  from 5 have "\<exists>ga. (ga, r5) \<in> set (matches (Plus not_rbracket) r4 g4)
      \<and> g5 = ga(2 \<mapsto> take (length r4 - length r5) r4)"
    unfolding in_matches_Group .
  then obtain ga where ga: "(ga, r5) \<in> set (matches (Plus not_rbracket) r4 g4)"
    and g5: "g5 = ga(2 \<mapsto> take (length r4 - length r5) r4)"
    by (elim exE conjE)
  from plus_prefix[OF ga] obtain b2 where
    b2: "r4 = b2 @ r5" "\<forall>c \<in> set b2. not_rbracket c" "ga = g4" by (elim exE conjE)
  from litD[OF 6] have l6: "r5 = '']'' @ r" "g' = g5" by simp_all
  have e1: "w1 @ CHR ''t'' # (''ime:'' @ r2) = '' '' @ CHR ''t'' # (''ime: ['' @ body @ '']'')"
    using w1(1) l2(1) by simp
  from cut_unique[OF e1 w1(2) _ t_not_space t_not_space]
  have c1: "w1 = '' ''" "''ime:'' @ r2 = ''ime: ['' @ body @ '']''"
    by (simp_all add: space_is_space)
  have e2: "w2 @ CHR ''['' # r4 = '' '' @ CHR ''['' # (body @ '']'')"
    using c1(2) w2(1) l4(1) by simp
  from cut_unique[OF e2 w2(2) _ lbracket_not_space lbracket_not_space]
  have c2: "w2 = '' ''" "r4 = body @ '']''"
    by (simp_all add: space_is_space)
  have e3: "b2 @ CHR '']'' # r = body @ CHR '']'' # []"
    using c2(2) b2(1) l6(1) by simp
  have nb: "\<forall>c \<in> set body. not_rbracket c" using body by (simp add: not_rbracket_def)
  have nr: "\<not> not_rbracket CHR '']''" by (simp add: not_rbracket_def)
  from cut_unique[OF e3 b2(2) nb nr nr] have c3: "b2 = body" "r = []" by simp_all
  have "take (length r4 - length r5) r4 = body"
    unfolding b2(1) c3(1) by simp
  then have "g' = g(2 \<mapsto> body)"
    using l6(2) g5 b2(3) l4(2) w2(3) l2(2) w1(3) by simp
  with c3(2) show ?thesis by simp
qed

lemma tail_complete:
  assumes "body \<noteq> []" and body: "\<forall>c \<in> set body. c \<noteq> CHR '']''"
  shows "(g(2 \<mapsto> body), []) \<in> set (matches tail_pattern ('' time: ['' @ body @ '']'') g)"
proof -
  have nb: "\<forall>c \<in> set body. not_rbracket c" using body by (simp add: not_rbracket_def)
  have sp: "'' '' \<noteq> []" "\<forall>c \<in> set '' ''. is_space c" by (simp_all add: space_is_space)
  have 6: "(g(2 \<mapsto> body), []) \<in> set (matches (Lit '']'') '']'' (g(2 \<mapsto> body)))"
    using lit_mem[of "g(2 \<mapsto> body)" "[]" "'']''"] by (simp only: append_Nil2)
  have 5: "(g(2 \<mapsto> body), '']'') \<in> set (matches (Group 2 (Plus not_rbracket)) (body @ '']'') g)"
    by (rule group_mem) (rule plus_mem[OF assms(1) nb])
  have s4: "(g(2 \<mapsto> body), []) \<in> set (matches (Seq (Group 2 (Plus not_rbracket)) (Lit '']''))
      (body @ '']'') g)"
    by (rule seq_mem[OF 5 6])
  have s3: "(g(2 \<mapsto> body), []) \<in> set (matches (Seq (Lit ''['')
        (Seq (Group 2 (Plus not_rbracket)) (Lit '']''))) (''['' @ body @ '']'') g)"
    by (rule seq_mem[OF lit_mem s4])
  have s2: "(g(2 \<mapsto> body), []) \<in> set (matches (Seq (Plus is_space) (Seq (Lit ''['')
        (Seq (Group 2 (Plus not_rbracket)) (Lit '']'')))) ('' '' @ ''['' @ body @ '']'') g)"
    by (rule seq_mem[OF plus_mem[OF sp] s3])
  have s1: "(g(2 \<mapsto> body), []) \<in> set (matches (Seq (Lit ''time:'') (Seq (Plus is_space)
        (Seq (Lit ''['') (Seq (Group 2 (Plus not_rbracket)) (Lit '']'')))))
        (''time:'' @ '' '' @ ''['' @ body @ '']'') g)"
    by (rule seq_mem[OF lit_mem s2])
  have "(g(2 \<mapsto> body), []) \<in> set (matches tail_pattern
        ('' '' @ ''time:'' @ '' '' @ ''['' @ body @ '']'') g)"
    unfolding tail_pattern_def by (rule seq_mem[OF plus_mem[OF sp] s1])
  then show ?thesis by simp
qed

lemma name_complete_slash:
  assumes "t1 \<noteq> []" "t2 \<noteq> []" "ds \<noteq> []"
    and "\<forall>c \<in> set t1. not_space c" "\<forall>c \<in> set t2. not_space c" "\<forall>c \<in> set ds. is_digit c"
  shows "(g, r) \<in> set (matches name_pattern ((t1 @ ''/'' @ t2 @ ''/'' @ ds) @ r) g)"
proof -
  have 5: "(g, r) \<in> set (matches (Plus is_digit) (ds @ r) g)"
    by (rule plus_mem[OF assms(3,6)])
  have 4: "(g, r) \<in> set (matches (Seq (Lit ''/'') (Plus is_digit)) (''/'' @ ds @ r) g)"
    by (rule seq_mem[OF lit_mem 5])
  have 3: "(g, r) \<in> set (matches (Seq (Plus not_space) (Seq (Lit ''/'') (Plus is_digit)))
      (t2 @ ''/'' @ ds @ r) g)"
    by (rule seq_mem[OF plus_mem[OF assms(2,5)] 4])
  have 2: "(g, r) \<in> set (matches (Seq (Lit ''/'') (Seq (Plus not_space) (Seq (Lit ''/'')
      (Plus is_digit)))) (''/'' @ t2 @ ''/'' @ ds @ r) g)"
    by (rule seq_mem[OF lit_mem 3])
  have 1: "(g, r) \<in> set (matches (Seq (Plus not_space) (Seq (Lit ''/'') (Seq (Plus not_space)
      (Seq (Lit ''/'') (Plus is_digit))))) (t1 @ ''/'' @ t2 @ ''/'' @ ds @ r) g)"
    by (rule seq_mem[OF plus_mem[OF assms(1,4)] 2])
  have e: "(t1 @ ''/'' @ t2 @ ''/'' @ ds) @ r = t1 @ ''/'' @ t2 @ ''/'' @ ds @ r" by simp
  show ?thesis
    unfolding name_pattern_def in_matches_Alt e using 1 by (rule disjI1)
qed

lemma name_complete_word:
  assumes "name \<noteq> []" "\<forall>c \<in> set name. is_word c"
  shows "(g, r) \<in> set (matches name_pattern (name @ r) g)"
  unfolding name_pattern_def in_matches_Alt using plus_mem[OF assms] by (rule disjI2)

lemma bench_pattern_match:
  assumes name: "(name = t1 @ ''/'' @ t2 @ ''/'' @ ds \<and> t1 \<noteq> [] \<and> t2 \<noteq> [] \<and> ds \<noteq> []
        \<and> list_all not_space t1 \<and> list_all not_space t2 \<and> list_all is_digit ds)
      \<or> (name \<noteq> [] \<and> list_all is_word name)"
    and "body \<noteq> []" and body: "\<forall>c \<in> set body. c \<noteq> CHR '']''"
  shows "re_match bench_pattern (name @ '' time: ['' @ body @ '']'')
    = Some ([1 \<mapsto> name, 2 \<mapsto> body], [])"
proof -
  let ?rest = "'' time: ['' @ body @ '']''"
  let ?L = "matches bench_pattern (name @ ?rest) Map.empty"
  let ?X = "([1 \<mapsto> name, 2 \<mapsto> body], [])"
  have nm: "(Map.empty, ?rest) \<in> set (matches name_pattern (name @ ?rest) Map.empty)"
    and nsp: "\<forall>c \<in> set name. \<not> is_space c"
  proof -
    from name consider
      (slash) "name = t1 @ ''/'' @ t2 @ ''/'' @ ds" "t1 \<noteq> []" "t2 \<noteq> []" "ds \<noteq> []"
        "\<forall>c \<in> set t1. not_space c" "\<forall>c \<in> set t2. not_space c" "\<forall>c \<in> set ds. is_digit c"
      | (word) "name \<noteq> []" "\<forall>c \<in> set name. is_word c"
      unfolding list_all_iff by blast
    then have "(Map.empty, ?rest) \<in> set (matches name_pattern (name @ ?rest) Map.empty)
        \<and> (\<forall>c \<in> set name. \<not> is_space c)"
    proof cases
      case slash
      have "\<forall>c \<in> set (t1 @ ''/'' @ t2 @ ''/'' @ ds). \<not> is_space c"
        using slash(5,6,7) slash_not_space digit_not_space by (auto simp: not_space_def)
      with name_complete_slash[OF slash(2-7), of Map.empty ?rest] show ?thesis
        unfolding slash(1) by (rule conjI)
    next
      case word
      from word(2) have "\<forall>c \<in> set name. \<not> is_space c" by (simp add: word_not_space)
      with name_complete_word[OF word, of Map.empty ?rest] show ?thesis by (rule conjI)
    qed
    then show "(Map.empty, ?rest) \<in> set (matches name_pattern (name @ ?rest) Map.empty)"
      and "\<forall>c \<in> set name. \<not> is_space c" by (rule conjunct1, rule conjunct2)
  qed
  have mem: "?X \<in> set ?L"
    unfolding bench_pattern_parts
    by (rule seq_mem[OF group_mem[OF nm] tail_complete[OF assms(2) body]])
  have all: "y = ?X" if y: "y \<in> set ?L" for y
  proof -
    obtain g' r where yy: "y = (g', r)" by (cases y)
    from y obtain g1 r1 where
      1: "(g1, r1) \<in> set (matches (Group 1 name_pattern) (name @ ?rest) Map.empty)" and
      2: "(g', r) \<in> set (matches tail_pattern r1 g1)"
      unfolding bench_pattern_parts yy by (rule seqE)
    from name_group_prefix[OF 1] obtain pre where
      pre: "name @ ?rest = pre @ r1" "\<forall>c \<in> set pre. \<not> is_space c" "g1 = [1 \<mapsto> pre]"
      by (elim exE conjE)
    from tail_starts_space[OF 2] obtain c rest where c: "r1 = c # rest" "is_space c"
      by (elim exE conjE)
    have e: "pre @ c # rest = name @ CHR '' '' # (''time: ['' @ body @ '']'')"
      using pre(1) c(1) by simp
    have nn: "\<not> \<not> is_space c" "\<not> \<not> is_space CHR '' ''" using c(2) space_is_space by simp_all
    from cut_unique[of pre c rest name "CHR '' ''" _ "\<lambda>c. \<not> is_space c", OF e pre(2) nsp nn]
    have p: "pre = name" "r1 = ?rest" using c(1) by simp_all
    from tail_sound[OF 2[unfolded p(2)] body] have "g' = g1(2 \<mapsto> body)" "r = []" by simp_all
    then show ?thesis unfolding yy pre(3) p(1) by simp
  qed
  show ?thesis
  proof (cases ?L)
    case Nil
    with mem show ?thesis by simp
  next
    case (Cons m ms)
    then have "m \<in> set ?L" by simp
    from all[OF this] Cons show ?thesis by (simp add: re_match_def)
  qed
qed

lemma finditer_single:
  assumes "re_match r s = Some (g, [])" "s \<noteq> []"
  shows "finditer r s = [g]"
proof -
  from assms(2) obtain c cs where s: "s = c # cs" by (cases s) auto
  have "finditer_from r (length cs) cs = []" by (rule finditer_from_skip) simp
  then show ?thesis using assms(1) by (simp add: finditer_def s)
qed

lemma parse_line:
  assumes name: "(name = t1 @ ''/'' @ t2 @ ''/'' @ ds \<and> t1 \<noteq> [] \<and> t2 \<noteq> [] \<and> ds \<noteq> []
        \<and> list_all not_space t1 \<and> list_all not_space t2 \<and> list_all is_digit ds)
      \<or> (name \<noteq> [] \<and> list_all is_word name)"
    and "body \<noteq> []" and body: "\<forall>c \<in> set body. c \<noteq> CHR '']''"
  shows "parse_criterion_content (name @ '' time: ['' @ body @ '']'')
    = (if 2 \<le> length (py_split body)
       then [(name, \<lparr>time = py_split body ! 1, full_time = body\<rparr>)] else [])"
proof -
  have f: "finditer bench_pattern (name @ '' time: ['' @ body @ '']'') = [[1 \<mapsto> name, 2 \<mapsto> body]]"
    by (rule finditer_single[OF bench_pattern_match[OF assms]]) simp
  show ?thesis
    unfolding parse_criterion_content_def f
    by (simp add: parse_step_def group_def Let_def)
qed

text \<open>
  C2: the name is either two tokens without whitespace and a run of digits, joined by
  slashes, or a bare identifier. For a file that holds the line
  \<^verbatim>\<open><name> time: [<a> <b> <c>]\<close>, where \<open>a\<close>, \<open>b\<close> and \<open>c\<close> are tokens without whitespace (a
  number with its unit attached), the bracketed text splits into exactly these tokens and
  the parser returns one record, keyed by the name, whose \<^verbatim>\<open>time\<close> is \<open>b\<close> and whose
  \<^verbatim>\<open>full_time\<close> is the bracketed text. When the bracketed text splits into fewer than two
  tokens, the parser returns no record.
\<close>

theorem parse_well_formed_line:
  assumes "(name = t1 @ ''/'' @ t2 @ ''/'' @ ds \<and> t1 \<noteq> [] \<and> t2 \<noteq> [] \<and> ds \<noteq> []
        \<and> list_all not_space t1 \<and> list_all not_space t2 \<and> list_all is_digit ds)
      \<or> (name \<noteq> [] \<and> list_all is_word name)"
  shows "(time_token a \<and> time_token b \<and> time_token c \<longrightarrow>
           py_split (a @ '' '' @ b @ '' '' @ c) = [a, b, c]
           \<and> parse_criterion_content (name @ '' time: ['' @ a @ '' '' @ b @ '' '' @ c @ '']'')
             = [(name, \<lparr>time = b, full_time = a @ '' '' @ b @ '' '' @ c\<rparr>)])
    \<and> (body \<noteq> [] \<and> list_all not_rbracket body \<and> length (py_split body) < 2 \<longrightarrow>
           parse_criterion_content (name @ '' time: ['' @ body @ '']'') = [])"
proof (intro conjI impI)
  assume t: "time_token a \<and> time_token b \<and> time_token c"
  then have ne: "a \<noteq> []" "b \<noteq> []" "c \<noteq> []"
    and sp: "\<forall>x \<in> set a. \<not> is_space x" "\<forall>x \<in> set b. \<not> is_space x" "\<forall>x \<in> set c. \<not> is_space x"
    and br: "\<forall>x \<in> set a. x \<noteq> CHR '']''" "\<forall>x \<in> set b. x \<noteq> CHR '']''" "\<forall>x \<in> set c. x \<noteq> CHR '']''"
    by (simp_all add: time_token_def list_all_iff not_space_def not_rbracket_def)
  let ?body = "a @ '' '' @ b @ '' '' @ c"
  show s: "py_split ?body = [a, b, c]" by (rule py_split_three[OF ne sp])
  have b1: "?body \<noteq> []" using ne by simp
  have b2: "\<forall>x \<in> set ?body. x \<noteq> CHR '']''" using br by auto
  have "parse_criterion_content (name @ '' time: ['' @ ?body @ '']'')
      = [(name, \<lparr>time = b, full_time = ?body\<rparr>)]"
    unfolding parse_line[OF assms b1 b2] s by simp
  then show "parse_criterion_content (name @ '' time: ['' @ a @ '' '' @ b @ '' '' @ c @ '']'')
      = [(name, \<lparr>time = b, full_time = ?body\<rparr>)]"
    by simp
next
  assume b: "body \<noteq> [] \<and> list_all not_rbracket body \<and> length (py_split body) < 2"
  then have b1: "body \<noteq> []" and b2: "\<forall>x \<in> set body. x \<noteq> CHR '']''"
    and b3: "\<not> 2 \<le> length (py_split body)"
    by (simp_all add: list_all_iff not_rbracket_def)
  show "parse_criterion_content (name @ '' time: ['' @ body @ '']'') = []"
    unfolding parse_line[OF assms b1 b2] using b3 by simp
qed

text \<open>
  The witness of C2: the line \<^verbatim>\<open>foo/bar/10 time: [10ns 12ns 14ns]\<close>, and the line
  \<^verbatim>\<open>bench_1 time: [12ns]\<close> with a single token.
\<close>

theorem parse_well_formed_line_witness:
  "''foo'' \<noteq> [] \<and> ''bar'' \<noteq> [] \<and> ''10'' \<noteq> []
   \<and> list_all not_space ''foo'' \<and> list_all not_space ''bar'' \<and> list_all is_digit ''10''
   \<and> time_token ''10ns'' \<and> time_token ''12ns'' \<and> time_token ''14ns''
   \<and> parse_criterion_content ''foo/bar/10 time: [10ns 12ns 14ns]''
       = [(''foo/bar/10'', \<lparr>time = ''12ns'', full_time = ''10ns 12ns 14ns''\<rparr>)]
   \<and> ''bench_1'' \<noteq> [] \<and> list_all is_word ''bench_1''
   \<and> ''12ns'' \<noteq> [] \<and> list_all not_rbracket ''12ns'' \<and> length (py_split ''12ns'') < 2
   \<and> parse_criterion_content ''bench_1 time: [12ns]'' = []"
proof -
  have n1: "''foo'' \<noteq> [] \<and> ''bar'' \<noteq> [] \<and> ''10'' \<noteq> []
      \<and> list_all not_space ''foo'' \<and> list_all not_space ''bar'' \<and> list_all is_digit ''10''"
    by code_simp
  have t: "time_token ''10ns'' \<and> time_token ''12ns'' \<and> time_token ''14ns''"
    by code_simp
  have n2: "''bench_1'' \<noteq> [] \<and> list_all is_word ''bench_1''"
    by code_simp
  have b: "''12ns'' \<noteq> [] \<and> list_all not_rbracket ''12ns'' \<and> length (py_split ''12ns'') < 2"
    by code_simp
  have e: "''foo/bar/10'' = ''foo'' @ ''/'' @ ''bar'' @ ''/'' @ ''10''" by simp
  have "parse_criterion_content (''foo/bar/10'' @ '' time: ['' @ ''10ns'' @ '' '' @ ''12ns''
        @ '' '' @ ''14ns'' @ '']'')
      = [(''foo/bar/10'', \<lparr>time = ''12ns'', full_time = ''10ns'' @ '' '' @ ''12ns'' @ '' '' @ ''14ns''\<rparr>)]"
    using parse_well_formed_line[where name = "''foo/bar/10''" and ?t1.0 = "''foo''"
        and ?t2.0 = "''bar''" and ds = "''10''" and a = "''10ns''" and b = "''12ns''"
        and c = "''14ns''"] e n1 t
    by blast
  then have p1: "parse_criterion_content ''foo/bar/10 time: [10ns 12ns 14ns]''
       = [(''foo/bar/10'', \<lparr>time = ''12ns'', full_time = ''10ns 12ns 14ns''\<rparr>)]"
    by simp
  have "parse_criterion_content (''bench_1'' @ '' time: ['' @ ''12ns'' @ '']'') = []"
    using parse_well_formed_line[where name = "''bench_1''" and body = "''12ns''"] n2 b
    by blast
  then have p2: "parse_criterion_content ''bench_1 time: [12ns]'' = []" by simp
  from n1 t p1 n2 b p2 show ?thesis by blast
qed

end
